theory Spec2Isabelle
  imports Main "HOL-Library.Word"
begin

unbundle bit_operations_syntax

section \<open>Bytes, object representations and the host byte order\<close>

text \<open>
  A byte of the file is a \<^typ>\<open>char\<close> (eight bits). A value of an integral C++ type is kept
  as its object representation, the list of its bytes in memory order, because the source
  reads structures straight from the file into memory and reverses bytes with
  \<open>std::bit_cast\<close>. The flag \<open>native_big\<close> stands for
  \<open>std::endian::native == std::endian::big\<close>. A \<open>double\<close> is kept as its 64-bit IEEE 754
  pattern, which is what \<open>std::bit_cast<double>\<close> fixes.
\<close>

type_synonym byte = char
type_synonym double = "64 word"

definition To_Machine_Endian_Raw :: "bool \<Rightarrow> byte list \<Rightarrow> byte list" where
  "To_Machine_Endian_Raw native_big v = (if native_big then v else rev v)"

fun le_val :: "byte list \<Rightarrow> nat" where
  "le_val [] = 0"
| "le_val (b # bs) = of_char b + 256 * le_val bs"

definition native_val :: "bool \<Rightarrow> byte list \<Rightarrow> nat" where
  "native_val native_big v = (if native_big then le_val (rev v) else le_val v)"

definition field :: "nat \<Rightarrow> nat \<Rightarrow> byte list \<Rightarrow> byte list" where
  "field off len bs = take len (drop off bs)"

section \<open>Header signatures\<close>

definition Header_Signature_Library :: string where
  "Header_Signature_Library = ''LIBRARY HEADER RECORD''"
definition Header_Signature_Member :: string where
  "Header_Signature_Member = ''MEMBER  HEADER RECORD''"
definition Header_Signature_Descriptor :: string where
  "Header_Signature_Descriptor = ''DSCRPTR HEADER RECORD''"
definition Header_Signature_Namestr :: string where
  "Header_Signature_Namestr = ''NAMESTR HEADER RECORD''"
definition Header_Signature_Observation :: string where
  "Header_Signature_Observation = ''OBS     HEADER RECORD''"

datatype Header_Signature = Sig_None | Library | Member | Descriptor | Namestr | Observation

definition Signature_Map :: "(string \<times> Header_Signature) list" where
  "Signature_Map =
    [(Header_Signature_Library, Library),
     (Header_Signature_Member, Member),
     (Header_Signature_Descriptor, Descriptor),
     (Header_Signature_Namestr, Namestr),
     (Header_Signature_Observation, Observation)]"

datatype NVar_Type = Numeric | String | NVar_Other nat

definition NVar_Type_of :: "nat \<Rightarrow> NVar_Type" where
  "NVar_Type_of n = (if n = 1 then Numeric else if n = 2 then String else NVar_Other n)"

section \<open>Layout of the packed structures\<close>

definition sizeof_Date_Time_Record :: nat where "sizeof_Date_Time_Record = 16"
definition sizeof_File_Header_Record :: nat where "sizeof_File_Header_Record = 80"
definition sizeof_Data_Header_Generic :: nat where "sizeof_Data_Header_Generic = 78"
definition sizeof_Member_Header_Record :: nat where "sizeof_Member_Header_Record = 80"
definition sizeof_Member_Header_Record_2 :: nat where "sizeof_Member_Header_Record_2 = 80"
definition sizeof_Namestr_Record_1 :: nat where "sizeof_Namestr_Record_1 = 80"
definition sizeof_Namestr_Record_2 :: nat where "sizeof_Namestr_Record_2 = 60"

definition namedesc :: "byte list \<Rightarrow> byte list" where "namedesc gen = field 20 21 gen"
definition num2 :: "byte list \<Rightarrow> byte list" where "num2 gen = field 53 5 gen"
definition ntype :: "byte list \<Rightarrow> byte list" where "ntype r = field 0 2 r"
definition nlng :: "byte list \<Rightarrow> byte list" where "nlng r = field 4 2 r"
definition nvar0 :: "byte list \<Rightarrow> byte list" where "nvar0 r = field 6 2 r"
definition nname :: "byte list \<Rightarrow> byte list" where "nname r = field 8 8 r"
definition nlabel :: "byte list \<Rightarrow> byte list" where "nlabel r = field 16 40 r"
definition npos :: "byte list \<Rightarrow> byte list" where "npos r = field 4 4 r"

section \<open>Strings and buffers\<close>

datatype exn =
    CEOF_Exception
  | invalid_argument
  | out_of_range
  | Buffer_Overrun
  | Vector_Index_Overrun

definition isspace :: "char \<Rightarrow> bool" where
  "isspace ch = (ch = CHR '' '' \<or> (9 \<le> (of_char ch :: nat) \<and> (of_char ch :: nat) \<le> 13))"

definition isdigit :: "char \<Rightarrow> bool" where
  "isdigit ch = (48 \<le> (of_char ch :: nat) \<and> (of_char ch :: nat) \<le> 57)"

definition Char_To_String :: "byte list \<Rightarrow> string" where
  "Char_To_String ca =
    (let s = ca;
         s = rev (dropWhile isspace (rev s));
         s = dropWhile isspace s
     in s)"

definition Get_From_Buffer_uint64 :: "byte list \<Rightarrow> nat \<Rightarrow> exn + byte list" where
  "Get_From_Buffer_uint64 buf offset =
    (if offset + 8 \<le> length buf then Inr (take 8 (drop offset buf)) else Inl Buffer_Overrun)"

definition Get_From_Buffer :: "byte list \<Rightarrow> nat \<Rightarrow> nat \<Rightarrow> exn + string" where
  "Get_From_Buffer buf offset len =
    (if offset + len \<le> length buf then
       (let dst = take len (drop offset buf);
            dst = rev (dropWhile (\<lambda>ch. isspace ch \<or> ch = CHR 0x00) (rev dst));
            dst = dropWhile isspace dst
        in Inr dst)
     else Inl Buffer_Overrun)"

section \<open>The numeric codec\<close>

definition IbmToIEEE :: "bool \<Rightarrow> byte list \<Rightarrow> double" where
  "IbmToIEEE native_big raw =
    (let in' = (word_of_nat (native_val native_big (To_Machine_Endian_Raw native_big raw)) :: 64 word);
         sign = in' AND 0x8000000000000000;
         exponent = drop_bit 56 (in' AND 0x7f00000000000000);
         mantissa = in' AND 0x00ffffffffffffff;
         shift = (if in' AND 0x0080000000000000 \<noteq> 0 then 3
                  else if in' AND 0x0040000000000000 \<noteq> 0 then 2
                  else if in' AND 0x0020000000000000 \<noteq> 0 then 1
                  else (0::nat));
         mantissa = drop_bit shift mantissa;
         mantissa = mantissa AND 0xffefffffffffffff;
         exponent = exponent - 65;
         exponent = push_bit 2 exponent;
         exponent = exponent + word_of_nat shift + 1023;
         ieee = sign OR push_bit 52 exponent OR mantissa
     in ieee)"

text \<open>Reading the fields of both formats, for stating what the codec computes.\<close>

definition be_word :: "byte list \<Rightarrow> 64 word" where
  "be_word raw = word_of_nat (le_val (rev raw))"

definition ibm_sign :: "64 word \<Rightarrow> bool" where "ibm_sign w = bit w 63"
definition ibm_exponent :: "64 word \<Rightarrow> nat" where "ibm_exponent w = unat (take_bit 7 (drop_bit 56 w))"
definition ibm_mantissa :: "64 word \<Rightarrow> 64 word" where "ibm_mantissa w = take_bit 56 w"
definition top_nibble :: "64 word \<Rightarrow> 64 word" where "top_nibble w = take_bit 4 (drop_bit 52 w)"

definition ieee_sign :: "double \<Rightarrow> bool" where "ieee_sign d = bit d 63"
definition ieee_exponent :: "double \<Rightarrow> nat" where "ieee_exponent d = unat (take_bit 11 (drop_bit 52 d))"
definition ieee_mantissa :: "double \<Rightarrow> 64 word" where "ieee_mantissa d = take_bit 52 d"

text \<open>
  The specification's wording of the algorithm: \<open>shift\<close> is the number of leading zero
  bits of the top nibble of the mantissa, and the exponent is
  \<open>((ibmExponent - 64) * 4) + shift - 1 + 1023\<close>.
\<close>

definition leading_zero_bits :: "64 word \<Rightarrow> nat" where
  "leading_zero_bits w =
    (if bit w 55 then 0 else if bit w 54 then 1 else if bit w 53 then 2 else 3)"

definition spec_exponent :: "64 word \<Rightarrow> int" where
  "spec_exponent w = ((int (ibm_exponent w) - 64) * 4) + int (leading_zero_bits w) - 1 + 1023"

definition spec_mantissa :: "64 word \<Rightarrow> 64 word" where
  "spec_mantissa w = take_bit 52 (drop_bit (leading_zero_bits w) (ibm_mantissa w))"

definition ibm_one :: "byte list" where
  "ibm_one = [CHR 0x41, CHR 0x10, CHR 0x00, CHR 0x00, CHR 0x00, CHR 0x00, CHR 0x00, CHR 0x00]"

text \<open>The shift the code selects.\<close>

definition code_shift :: "64 word \<Rightarrow> nat" where
  "code_shift w = (if bit w 55 then 3 else if bit w 54 then 2 else if bit w 53 then 1 else 0)"

section \<open>The input stream\<close>

text \<open>
  \<open>std::ifstream\<close> as far as the loader uses it: the bytes of the file, the get position,
  the failure state, and the requests made so far. \<open>read\<close> on a failed stream extracts
  nothing; a read that meets the end of the file extracts what is left and sets the
  failure state; \<open>seekg\<close> does nothing on a failed stream.
\<close>

datatype io_request = Req_read nat | Req_seekg nat

record ifstream =
  content :: "byte list"
  gpos :: nat
  failed :: bool
  requests :: "io_request list"

definition ifstream_read :: "nat \<Rightarrow> ifstream \<Rightarrow> byte list \<times> ifstream" where
  "ifstream_read n f =
    (if failed f then ([], f\<lparr>requests := requests f @ [Req_read n]\<rparr>)
     else (let got = take n (drop (gpos f) (content f))
           in (got, f\<lparr>gpos := gpos f + length got,
                      failed := (length got \<noteq> n),
                      requests := requests f @ [Req_read n]\<rparr>)))"

definition ifstream_seekg_cur :: "nat \<Rightarrow> ifstream \<Rightarrow> ifstream" where
  "ifstream_seekg_cur count f =
    f\<lparr>gpos := (if failed f then gpos f else gpos f + count),
      requests := requests f @ [Req_seekg count]\<rparr>"

definition available :: "ifstream \<Rightarrow> nat" where
  "available f = (if failed f then 0 else length (content f) - gpos f)"

section \<open>The loader\<close>

datatype NStatus =
    Ok
  | No_Library_Header
  | No_Member_Header
  | No_Descriptor_Header
  | No_Namestr_Header
  | No_Observation_Header

datatype TValue = TString string | TDouble double

record Variable_Record =
  var_name :: string
  var_label :: string
  var_type :: NVar_Type
  var_length :: nat
  varNum :: nat
  var_position :: nat

record File =
  mFile :: ifstream
  mVariables :: "Variable_Record list"
  mRecord_Len :: nat

text \<open>A member function either returns or throws, and leaves the object changed.\<close>

type_synonym 'a member = "File \<Rightarrow> (exn + 'a) \<times> File"

definition bnd :: "'a member \<Rightarrow> ('a \<Rightarrow> 'b member) \<Rightarrow> 'b member" where
  "bnd m k fl = (case m fl of (Inl e, fl') \<Rightarrow> (Inl e, fl') | (Inr a, fl') \<Rightarrow> k a fl')"

definition ret :: "'a \<Rightarrow> 'a member" where
  "ret a fl = (Inr a, fl)"

definition Read :: "nat \<Rightarrow> bool \<Rightarrow> byte list member" where
  "Read sizeof_T padded fl =
    (let bytes_to_read = (if padded then 80 else sizeof_T);
         (got, f) = ifstream_read bytes_to_read (mFile fl)
     in if length got \<noteq> bytes_to_read then (Inl CEOF_Exception, fl\<lparr>mFile := f\<rparr>)
        else (Inr (take sizeof_T got), fl\<lparr>mFile := f\<rparr>))"

definition Read_vec :: "nat \<Rightarrow> byte list member" where
  "Read_vec byte_count fl =
    (let (got, f) = ifstream_read byte_count (mFile fl)
     in if length got \<noteq> byte_count then (Inl CEOF_Exception, fl\<lparr>mFile := f\<rparr>)
        else (Inr got, fl\<lparr>mFile := f\<rparr>))"

definition Read_Discard :: "nat \<Rightarrow> File \<Rightarrow> File" where
  "Read_Discard count fl = fl\<lparr>mFile := ifstream_seekg_cur count (mFile fl)\<rparr>"

definition Recognize_Data_Header :: "byte list \<Rightarrow> Header_Signature" where
  "Recognize_Data_Header gen =
    (case map_of Signature_Map (namedesc gen) of
       None \<Rightarrow> Sig_None
     | Some sig \<Rightarrow> sig)"

text \<open>
  \<open>std::stoull\<close> in base 10 on a \<open>std::string\<close>: the text ends at the first NUL, leading
  white space is skipped, one sign is accepted, the digits that follow are the value, and a
  minus sign negates it in \<open>unsigned long long\<close>.
\<close>

fun decimal :: "nat \<Rightarrow> string \<Rightarrow> nat" where
  "decimal acc [] = acc"
| "decimal acc (c # cs) = decimal (10 * acc + (of_char c - 48)) cs"

definition stoull :: "string \<Rightarrow> exn + nat" where
  "stoull str =
    (let s = takeWhile (\<lambda>ch. ch \<noteq> CHR 0x00) str;
         s = dropWhile isspace s;
         neg = (s \<noteq> [] \<and> hd s = CHR ''-'');
         s = (if s \<noteq> [] \<and> (hd s = CHR ''-'' \<or> hd s = CHR ''+'') then tl s else s);
         digits = takeWhile isdigit s;
         v = decimal 0 digits
     in if digits = [] then Inl invalid_argument
        else if 2 ^ 64 \<le> v then Inl out_of_range
        else Inr (if neg then (2 ^ 64 - v) mod 2 ^ 64 else v))"

definition int32_to_size_t :: "nat \<Rightarrow> nat" where
  "int32_to_size_t v = (if v < 2 ^ 31 then v else 2 ^ 64 - 2 ^ 32 + v)"

definition make_Variable_Record :: "bool \<Rightarrow> byte list \<Rightarrow> byte list \<Rightarrow> Variable_Record" where
  "make_Variable_Record native_big namestr1 namestr2 =
    \<lparr>var_name = Char_To_String (nname namestr1),
     var_label = Char_To_String (nlabel namestr1),
     var_type = NVar_Type_of (native_val native_big (To_Machine_Endian_Raw native_big (ntype namestr1))),
     var_length = native_val native_big (To_Machine_Endian_Raw native_big (nlng namestr1)),
     varNum = native_val native_big (To_Machine_Endian_Raw native_big (nvar0 namestr1)),
     var_position =
       int32_to_size_t (native_val native_big (To_Machine_Endian_Raw native_big (npos namestr2)))\<rparr>"

text \<open>
  The loop over the variable descriptors, by the number of iterations still to run;
  \<open>readCnt\<close> and \<open>mRecord_Len\<close> are \<open>size_t\<close> and wrap at \<open>2 ^ 64\<close>.
\<close>

primrec Read_Namestrs :: "bool \<Rightarrow> nat \<Rightarrow> nat \<Rightarrow> nat member" where
  "Read_Namestrs native_big 0 readCnt = ret readCnt"
| "Read_Namestrs native_big (Suc n) readCnt =
    bnd (Read sizeof_Namestr_Record_1 False) (\<lambda>namestr1.
    bnd (Read sizeof_Namestr_Record_2 False) (\<lambda>namestr2. \<lambda>fl.
      (let readCnt' = (readCnt + (sizeof_Namestr_Record_1 + sizeof_Namestr_Record_2)) mod 2 ^ 64;
           mvar = make_Variable_Record native_big namestr1 namestr2;
           varLength = var_length mvar
       in Read_Namestrs native_big n readCnt'
            (fl\<lparr>mVariables := mVariables fl @ [mvar],
                mRecord_Len := (mRecord_Len fl + varLength) mod 2 ^ 64\<rparr>))))"

definition Read_Padding :: "nat \<Rightarrow> unit member" where
  "Read_Padding readCnt fl =
    (let rest = readCnt mod 80
     in if rest \<noteq> 0 then (Inr (), Read_Discard (80 - rest) fl) else (Inr (), fl))"

definition Read_Headers :: "bool \<Rightarrow> NStatus member" where
  "Read_Headers native_big =
    bnd (Read sizeof_Data_Header_Generic True) (\<lambda>hdr.
    if Recognize_Data_Header hdr \<noteq> Library then ret No_Library_Header else
    bnd (Read sizeof_File_Header_Record True) (\<lambda>file_header.
    bnd (Read sizeof_Date_Time_Record True) (\<lambda>created_at.
    bnd (Read sizeof_Data_Header_Generic True) (\<lambda>hdr.
    if Recognize_Data_Header hdr \<noteq> Member then ret No_Member_Header else
    bnd (Read sizeof_Data_Header_Generic True) (\<lambda>hdr.
    if Recognize_Data_Header hdr \<noteq> Descriptor then ret No_Descriptor_Header else
    bnd (Read sizeof_Member_Header_Record True) (\<lambda>member_header_1.
    bnd (Read sizeof_Member_Header_Record_2 True) (\<lambda>member_header_2.
    bnd (Read sizeof_Data_Header_Generic True) (\<lambda>hdr.
    if Recognize_Data_Header hdr \<noteq> Namestr then ret No_Namestr_Header else
    bnd (\<lambda>fl. ret () (fl\<lparr>mRecord_Len := 0\<rparr>)) (\<lambda>_.
    bnd (\<lambda>fl. (stoull (num2 hdr), fl)) (\<lambda>cnt.
    bnd (Read_Namestrs native_big cnt 0) (\<lambda>readCnt.
    bnd (Read_Padding readCnt) (\<lambda>_.
    bnd (Read sizeof_Data_Header_Generic True) (\<lambda>hdr.
    if Recognize_Data_Header hdr \<noteq> Observation then ret No_Observation_Header else
    ret Ok)))))))))))))"

subsection \<open>Reading a row into a vector\<close>

definition resize :: "nat \<Rightarrow> 'a \<Rightarrow> 'a list \<Rightarrow> 'a list" where
  "resize n d xs = take n xs @ replicate (n - length xs) d"

fun Read_Next_loop ::
  "bool \<Rightarrow> Variable_Record list \<Rightarrow> byte list \<Rightarrow> nat \<Rightarrow> TValue list \<Rightarrow> exn + TValue list" where
  "Read_Next_loop native_big [] data i target = Inr target"
| "Read_Next_loop native_big (mvar # rest) data i target =
    (if var_type mvar = Numeric then
       (case Get_From_Buffer_uint64 data (var_position mvar) of
          Inl e \<Rightarrow> Inl e
        | Inr num_raw \<Rightarrow>
            Read_Next_loop native_big rest data (Suc i) (target[i := TDouble (IbmToIEEE native_big num_raw)]))
     else if var_type mvar = String then
       (case Get_From_Buffer data (var_position mvar) (var_length mvar) of
          Inl e \<Rightarrow> Inl e
        | Inr s \<Rightarrow> Read_Next_loop native_big rest data (Suc i) (target[i := TString s]))
     else Read_Next_loop native_big rest data (Suc i) target)"

definition Read_Next :: "bool \<Rightarrow> TValue list \<Rightarrow> File \<Rightarrow> (exn + bool) \<times> TValue list \<times> File" where
  "Read_Next native_big target fl =
    (let target = resize (length (mVariables fl)) (TString []) target
     in case Read_vec (mRecord_Len fl) fl of
          (Inl e, fl') \<Rightarrow>
            (if e = CEOF_Exception then (Inr False, target, fl') else (Inl e, target, fl'))
        | (Inr data, fl') \<Rightarrow>
            (case Read_Next_loop native_big (mVariables fl') data 0 target of
               Inl e \<Rightarrow> (Inl e, target, fl')
             | Inr target' \<Rightarrow> (Inr True, target', fl')))"

subsection \<open>Reading a row into typed parameters\<close>

text \<open>
  A parameter of the variadic \<open>Read_Next\<close> is a reference to a \<open>double\<close> or to a string;
  its current value is carried along, so that a parameter not assigned keeps it.
  \<open>std::stod\<close> and \<open>std::to_string\<close> belong to the standard library and are parameters;
  \<open>std::stod\<close> returns a value or throws \<open>std::invalid_argument\<close> or \<open>std::out_of_range\<close>.
\<close>

datatype Arg = Arg_double double | Arg_string string

datatype stod_result = stod_value double | stod_invalid_argument | stod_out_of_range

definition Fetch_Column_Idx ::
  "bool \<Rightarrow> (string \<Rightarrow> stod_result) \<Rightarrow> (double \<Rightarrow> string) \<Rightarrow> Variable_Record list \<Rightarrow>
   byte list \<Rightarrow> nat \<Rightarrow> Arg \<Rightarrow> exn + Arg" where
  "Fetch_Column_Idx native_big stod to_string vars data argIdx arg =
    (if length vars \<le> argIdx then Inl Vector_Index_Overrun
     else (let mvar = vars ! argIdx in
       case arg of
         Arg_double _ \<Rightarrow>
           (if var_type mvar = Numeric then
              (case Get_From_Buffer_uint64 data (var_position mvar) of
                 Inl e \<Rightarrow> Inl e
               | Inr num_raw \<Rightarrow> Inr (Arg_double (IbmToIEEE native_big num_raw)))
            else
              (case Get_From_Buffer data (var_position mvar) (var_length mvar) of
                 Inl e \<Rightarrow> Inl e
               | Inr s \<Rightarrow>
                   (case stod s of
                      stod_value d \<Rightarrow> Inr (Arg_double d)
                    | stod_invalid_argument \<Rightarrow> Inl invalid_argument
                    | stod_out_of_range \<Rightarrow> Inl out_of_range)))
       | Arg_string _ \<Rightarrow>
           (if var_type mvar = String then
              (case Get_From_Buffer data (var_position mvar) (var_length mvar) of
                 Inl e \<Rightarrow> Inl e
               | Inr s \<Rightarrow> Inr (Arg_string s))
            else
              (case Get_From_Buffer_uint64 data (var_position mvar) of
                 Inl e \<Rightarrow> Inl e
               | Inr num_raw \<Rightarrow> Inr (Arg_string (to_string (IbmToIEEE native_big num_raw)))))))"

text \<open>
  The recursion over the parameter pack. The result is the exception thrown, if any, and
  the parameters as they stand afterwards. No instance exists for an empty pack.
\<close>

fun Fetch_Column ::
  "bool \<Rightarrow> (string \<Rightarrow> stod_result) \<Rightarrow> (double \<Rightarrow> string) \<Rightarrow> Variable_Record list \<Rightarrow>
   byte list \<Rightarrow> nat \<Rightarrow> Arg list \<Rightarrow> exn option \<times> Arg list" where
  "Fetch_Column native_big stod to_string vars data origCnt [] = (None, [])"
| "Fetch_Column native_big stod to_string vars data origCnt [arg] =
    (case Fetch_Column_Idx native_big stod to_string vars data (origCnt - 1) arg of
       Inl e \<Rightarrow> (Some e, [arg])
     | Inr a \<Rightarrow> (None, [a]))"
| "Fetch_Column native_big stod to_string vars data origCnt (arg # args) =
    (let i = origCnt - (length args + 1)
     in case Fetch_Column_Idx native_big stod to_string vars data i arg of
          Inl e \<Rightarrow> (Some e, arg # args)
        | Inr a \<Rightarrow>
            (case Fetch_Column native_big stod to_string vars data origCnt args of
               (r, args') \<Rightarrow> (r, a # args')))"

definition Read_Next_args ::
  "bool \<Rightarrow> (string \<Rightarrow> stod_result) \<Rightarrow> (double \<Rightarrow> string) \<Rightarrow> Arg list \<Rightarrow> File \<Rightarrow>
   (exn + bool) \<times> Arg list \<times> File" where
  "Read_Next_args native_big stod to_string args fl =
    (let originalArgCount = length args
     in case Read_vec (mRecord_Len fl) fl of
          (Inl e, fl') \<Rightarrow>
            (if e = CEOF_Exception then (Inr False, args, fl') else (Inl e, args, fl'))
        | (Inr data, fl') \<Rightarrow>
            (case Fetch_Column native_big stod to_string (mVariables fl') data originalArgCount args of
               (Some e, args') \<Rightarrow> (Inl e, args', fl')
             | (None, args') \<Rightarrow> (Inr True, args', fl')))"

section \<open>The library function \<open>std::stod\<close>\<close>

text \<open>
  \<open>Fetch_Column_Idx\<close> converts the text of a String cell with \<open>std::stod\<close>, which calls
  \<open>strtod\<close> on the characters up to the first NUL, throws \<open>std::invalid_argument\<close> when
  no conversion is made and \<open>std::out_of_range\<close> when \<open>strtod\<close> sets \<open>ERANGE\<close>, and
  ignores what follows the number. \<open>strtod_subject\<close> is the subject sequence of the C
  standard in the C locale: white space, one sign, then \<open>infinity\<close> or \<open>inf\<close>, \<open>nan\<close>
  with an optional sequence in parentheses, a hexadecimal number after \<open>0x\<close> (the \<open>0\<close>
  alone when no hexadecimal digit follows), or decimal digits with at most one point, and
  an exponent when digits follow its marker; letters in either case. \<open>round_to_double\<close>
  rounds the quotient of two naturals to the nearest \<open>double\<close>, ties to even, and gives
  the bit pattern. Where the standard leaves a choice the model follows glibc: a finite
  result too large, or a subnormal or zero result that is not exact, sets \<open>ERANGE\<close>; the
  payload of \<open>nan(\<dots>)\<close> is the sequence read as by \<open>strtoull\<close> with base 0, reduced
  to 51 bits, \<open>ERANGE\<close> when it exceeds 64 bits, and no payload when the sequence is not a
  number.
\<close>

definition tolower :: "char \<Rightarrow> char" where
  "tolower c = (if 65 \<le> (of_char c :: nat) \<and> (of_char c :: nat) \<le> 90
                then char_of ((of_char c :: nat) + 32) else c)"

definition isxdigit :: "char \<Rightarrow> bool" where
  "isxdigit c = (isdigit c \<or> (97 \<le> (of_char (tolower c) :: nat) \<and> (of_char (tolower c) :: nat) \<le> 102))"

fun hexadecimal :: "nat \<Rightarrow> string \<Rightarrow> nat" where
  "hexadecimal acc [] = acc"
| "hexadecimal acc (c # cs) =
     hexadecimal (16 * acc + (if isdigit c then of_char c - 48 else of_char (tolower c) - 87)) cs"

datatype subject =
    Decimal string string int
  | Hexadecimal string string int
  | Infinity
  | NaN "string option"

definition scan_exponent :: "char \<Rightarrow> string \<Rightarrow> int \<times> string" where
  "scan_exponent marker s =
    (if s \<noteq> [] \<and> tolower (hd s) = marker then
       (let t = tl s;
            neg = (t \<noteq> [] \<and> hd t = CHR ''-'');
            u = (if t \<noteq> [] \<and> (hd t = CHR ''-'' \<or> hd t = CHR ''+'') then tl t else t);
            ds = takeWhile isdigit u
        in if ds = [] then (0, s)
           else ((if neg then - int (decimal 0 ds) else int (decimal 0 ds)), dropWhile isdigit u))
     else (0, s))"

definition scan_number ::
  "(char \<Rightarrow> bool) \<Rightarrow> char \<Rightarrow> string \<Rightarrow> (string \<times> string \<times> int \<times> string) option" where
  "scan_number is_digit marker s =
    (let ip = takeWhile is_digit s;
         s1 = dropWhile is_digit s;
         fp = (if s1 \<noteq> [] \<and> hd s1 = CHR ''.'' then takeWhile is_digit (tl s1) else []);
         s2 = (if s1 \<noteq> [] \<and> hd s1 = CHR ''.'' then dropWhile is_digit (tl s1) else s1)
     in if ip = [] \<and> fp = [] then None
        else (let (e, s3) = scan_exponent marker s2 in Some (ip, fp, e, s3)))"

definition is_n_char :: "char \<Rightarrow> bool" where
  "is_n_char c = (isdigit c \<or> (97 \<le> (of_char (tolower c) :: nat) \<and> (of_char (tolower c) :: nat) \<le> 122)
                  \<or> c = CHR ''_'')"

definition n_char_sequence :: "string \<Rightarrow> (string \<times> string) option" where
  "n_char_sequence s =
    (if s \<noteq> [] \<and> hd s = CHR ''('' then
       (let t = dropWhile is_n_char (tl s)
        in if t \<noteq> [] \<and> hd t = CHR '')'' then Some (takeWhile is_n_char (tl s), tl t) else None)
     else None)"

definition strtod_subject :: "string \<Rightarrow> (bool \<times> subject \<times> string) option" where
  "strtod_subject str =
    (let s = dropWhile isspace (takeWhile (\<lambda>ch. ch \<noteq> CHR 0x00) str);
         neg = (s \<noteq> [] \<and> hd s = CHR ''-'');
         u = (if s \<noteq> [] \<and> (hd s = CHR ''-'' \<or> hd s = CHR ''+'') then tl s else s)
     in if map tolower (take 8 u) = ''infinity'' then Some (neg, Infinity, drop 8 u)
        else if map tolower (take 3 u) = ''inf'' then Some (neg, Infinity, drop 3 u)
        else if map tolower (take 3 u) = ''nan'' then
          (case n_char_sequence (drop 3 u) of
             Some (sq, r) \<Rightarrow> Some (neg, NaN (Some sq), r)
           | None \<Rightarrow> Some (neg, NaN None, drop 3 u))
        else if map tolower (take 2 u) = ''0x'' then
          (case scan_number isxdigit (CHR ''p'') (drop 2 u) of
             Some (ip, fp, e, r) \<Rightarrow> Some (neg, Hexadecimal ip fp e, r)
           | None \<Rightarrow> Some (neg, Decimal ''0'' [] 0, tl u))
        else
          (case scan_number isdigit (CHR ''e'') u of
             Some (ip, fp, e, r) \<Rightarrow> Some (neg, Decimal ip fp e, r)
           | None \<Rightarrow> None))"

fun bitlen :: "nat \<Rightarrow> nat" where
  "bitlen n = (if n = 0 then 0 else Suc (bitlen (n div 2)))"

definition scaled :: "nat \<Rightarrow> nat \<Rightarrow> int \<Rightarrow> nat \<times> nat" where
  "scaled num den k = (if 0 \<le> k then (num * 2 ^ nat k, den) else (num, den * 2 ^ nat (- k)))"

definition round_half_even :: "nat \<times> nat \<Rightarrow> nat" where
  "round_half_even nd =
    (let q = fst nd div snd nd; r = fst nd mod snd nd
     in if snd nd < 2 * r \<or> (2 * r = snd nd \<and> odd q) then q + 1 else q)"

definition exact :: "nat \<times> nat \<Rightarrow> bool" where
  "exact nd \<longleftrightarrow> fst nd mod snd nd = 0"

definition round_to_double :: "nat \<Rightarrow> nat \<Rightarrow> nat option" where
  "round_to_double num den =
    (if num = 0 then Some 0
     else
       (let k = int (bitlen num) - int (bitlen den);
            e = (if fst (scaled num den (- k)) \<ge> snd (scaled num den (- k)) then k else k - 1);
            m = round_half_even (scaled num den (52 - e));
            e = (if m = 2 ^ 53 then e + 1 else e);
            m = (if m = 2 ^ 53 then 2 ^ 52 else m)
        in if 1023 < e then None
           else if - 1022 \<le> e then Some (nat (e + 1022) * 2 ^ 52 + m)
           else if exact (scaled num den 1074) then Some (round_half_even (scaled num den 1074))
           else None))"

definition isoctal :: "char \<Rightarrow> bool" where
  "isoctal ch = (48 \<le> (of_char ch :: nat) \<and> (of_char ch :: nat) \<le> 55)"

fun octal :: "nat \<Rightarrow> string \<Rightarrow> nat" where
  "octal acc [] = acc"
| "octal acc (c # cs) = octal (8 * acc + (of_char c - 48)) cs"

definition strtoull_base0 :: "string \<Rightarrow> nat \<times> nat" where
  "strtoull_base0 s =
    (if map tolower (take 2 s) = ''0x'' \<and> takeWhile isxdigit (drop 2 s) \<noteq> [] then
       (hexadecimal 0 (takeWhile isxdigit (drop 2 s)), 2 + length (takeWhile isxdigit (drop 2 s)))
     else if s \<noteq> [] \<and> hd s = CHR ''0'' then
       (octal 0 (takeWhile isoctal s), length (takeWhile isoctal s))
     else (decimal 0 (takeWhile isdigit s), length (takeWhile isdigit s)))"

definition nan_value :: "string \<Rightarrow> nat option" where
  "nan_value sq =
    (let (v, n) = strtoull_base0 sq
     in if n = length sq then
          (if 2 ^ 64 \<le> v then None else Some (0x7FF8000000000000 + v mod 2 ^ 51))
        else Some 0x7FF8000000000000)"

definition subject_value :: "subject \<Rightarrow> nat option" where
  "subject_value sb =
    (case sb of
       Decimal ip fp e \<Rightarrow>
         (let sc = e - int (length fp)
          in if 0 \<le> sc then round_to_double (decimal 0 (ip @ fp) * 10 ^ nat sc) 1
             else round_to_double (decimal 0 (ip @ fp)) (10 ^ nat (- sc)))
     | Hexadecimal ip fp e \<Rightarrow>
         (let sc = e - 4 * int (length fp)
          in if 0 \<le> sc then round_to_double (hexadecimal 0 (ip @ fp) * 2 ^ nat sc) 1
             else round_to_double (hexadecimal 0 (ip @ fp)) (2 ^ nat (- sc)))
     | Infinity \<Rightarrow> Some 0x7FF0000000000000
     | NaN None \<Rightarrow> Some 0x7FF8000000000000
     | NaN (Some sq) \<Rightarrow> nan_value sq)"

definition std_stod :: "string \<Rightarrow> stod_result" where
  "std_stod str =
    (case strtod_subject str of
       None \<Rightarrow> stod_invalid_argument
     | Some (neg, sb, rest) \<Rightarrow>
         (case subject_value sb of
            None \<Rightarrow> stod_out_of_range
          | Some d \<Rightarrow> stod_value (word_of_nat (if neg then d + 2 ^ 63 else d))))"

section \<open>States and positions used in the statements\<close>

text \<open>
  The state after a successful read of \<open>n\<close> bytes and the state after a short one.
\<close>

definition consumed :: "nat \<Rightarrow> File \<Rightarrow> File" where
  "consumed n fl =
    fl\<lparr>mFile := (mFile fl)\<lparr>gpos := gpos (mFile fl) + n, failed := False,
                             requests := requests (mFile fl) @ [Req_read n]\<rparr>\<rparr>"

definition short_read :: "nat \<Rightarrow> File \<Rightarrow> File" where
  "short_read n fl = fl\<lparr>mFile := snd (ifstream_read n (mFile fl))\<rparr>"

text \<open>
  The generic header in the \<open>k\<close>-th 80-byte block counted from the get position at the
  call of \<open>Read_Headers\<close>; the padding the specification gives for a number of descriptor
  bytes; the block in which the Observation header is expected after \<open>cnt\<close> descriptors.
\<close>

definition header_at :: "nat \<Rightarrow> File \<Rightarrow> byte list" where
  "header_at k fl =
    take sizeof_Data_Header_Generic (field (gpos (mFile fl) + 80 * k) 80 (content (mFile fl)))"

definition padding :: "nat \<Rightarrow> nat" where
  "padding totalBytesRead = (80 - totalBytesRead mod 80) mod 80"

definition observation_header_at :: "nat \<Rightarrow> File \<Rightarrow> byte list" where
  "observation_header_at cnt fl =
    field (gpos (mFile fl) + 640 + 140 * cnt + padding (140 * cnt)) 80 (content (mFile fl))"

text \<open>
  One iteration of the descriptor loop when both of its reads succeed, the descriptors
  that \<open>n\<close> iterations store, the state after the eight header blocks, and the state just
  before the read of the Observation header.
\<close>

definition namestr_step :: "bool \<Rightarrow> File \<Rightarrow> File" where
  "namestr_step b fl =
    (let c = content (mFile fl); p = gpos (mFile fl);
         mvar = make_Variable_Record b (field p 80 c) (field (p + 80) 60 c)
     in (consumed 60 (consumed 80 fl))
          \<lparr>mVariables := mVariables fl @ [mvar],
           mRecord_Len := (mRecord_Len fl + var_length mvar) mod 2 ^ 64\<rparr>)"

definition descriptors :: "bool \<Rightarrow> byte list \<Rightarrow> nat \<Rightarrow> nat \<Rightarrow> Variable_Record list" where
  "descriptors b c p n =
    map (\<lambda>i. make_Variable_Record b (field (p + 140 * i) 80 c) (field (p + 140 * i + 80) 60 c)) [0..<n]"

definition after_headers :: "File \<Rightarrow> File" where
  "after_headers fl =
    (consumed 80 (consumed 80 (consumed 80 (consumed 80
      (consumed 80 (consumed 80 (consumed 80 (consumed 80 fl))))))))\<lparr>mRecord_Len := 0\<rparr>"

definition before_observation :: "bool \<Rightarrow> nat \<Rightarrow> File \<Rightarrow> File" where
  "before_observation b cnt fl =
    snd (Read_Padding ((140 * cnt) mod 2 ^ 64) ((namestr_step b ^^ cnt) (after_headers fl)))"

text \<open>
  \<open>Read_Headers\<close> returns the status \<open>st\<close>, having made the requests \<open>reqs\<close> and no other,
  with the get position moved by \<open>n\<close> bytes.
\<close>

definition stops_after :: "bool \<Rightarrow> File \<Rightarrow> NStatus \<Rightarrow> io_request list \<Rightarrow> nat \<Rightarrow> bool" where
  "stops_after b fl st reqs n \<longleftrightarrow>
     fst (Read_Headers b fl) = Inr st
     \<and> requests (mFile (snd (Read_Headers b fl))) = requests (mFile fl) @ reqs
     \<and> gpos (mFile (snd (Read_Headers b fl))) = gpos (mFile fl) + n"

text \<open>
  The positions of the two sub-records after the Library header and of the two after the
  Descriptor header; two contents that agree outside a set of positions; a session with
  its content replaced.
\<close>

definition sub_record_positions :: "File \<Rightarrow> nat set" where
  "sub_record_positions fl =
    {gpos (mFile fl) + 80 ..< gpos (mFile fl) + 240}
    \<union> {gpos (mFile fl) + 400 ..< gpos (mFile fl) + 560}"

definition same_outside :: "nat set \<Rightarrow> byte list \<Rightarrow> byte list \<Rightarrow> bool" where
  "same_outside S c c' \<longleftrightarrow> length c' = length c \<and> (\<forall>p < length c. p \<notin> S \<longrightarrow> c' ! p = c ! p)"

definition with_content :: "byte list \<Rightarrow> File \<Rightarrow> File" where
  "with_content c fl = fl\<lparr>mFile := (mFile fl)\<lparr>content := c\<rparr>\<rparr>"

text \<open>
  The row buffer that the next \<open>Read_Next\<close> reads. The trimming of \<open>Get_From_Buffer\<close>
  as a function of the cell, and trimming of white space alone, as the specification
  words it. What a decoded cell holds, and when the extraction of a cell leaves the
  buffer.
\<close>

definition row_buffer :: "File \<Rightarrow> byte list" where
  "row_buffer fl = field (gpos (mFile fl)) (mRecord_Len fl) (content (mFile fl))"

definition trim_cell :: "string \<Rightarrow> string" where
  "trim_cell s = dropWhile isspace (rev (dropWhile (\<lambda>ch. isspace ch \<or> ch = CHR 0x00) (rev s)))"

definition trim_whitespace :: "string \<Rightarrow> string" where
  "trim_whitespace s = dropWhile isspace (rev (dropWhile isspace (rev s)))"

definition decoded_cell :: "bool \<Rightarrow> byte list \<Rightarrow> Variable_Record \<Rightarrow> TValue \<Rightarrow> bool" where
  "decoded_cell b data v t \<longleftrightarrow>
     (var_type v = Numeric \<longrightarrow> var_position v + 8 \<le> length data
        \<and> t = TDouble (IbmToIEEE b (field (var_position v) 8 data)))
     \<and> (var_type v = String \<longrightarrow> var_position v + var_length v \<le> length data
        \<and> t = TString (trim_cell (field (var_position v) (var_length v) data)))"

definition overruns :: "byte list \<Rightarrow> Variable_Record \<Rightarrow> bool" where
  "overruns data v \<longleftrightarrow>
     (var_type v = Numeric \<and> length data < var_position v + 8)
     \<or> (var_type v = String \<and> length data < var_position v + var_length v)"

text \<open>
  The recursion over the parameter pack, counted upwards from the index of the first slot.
\<close>

fun fetch_from ::
  "bool \<Rightarrow> (string \<Rightarrow> stod_result) \<Rightarrow> (double \<Rightarrow> string) \<Rightarrow> Variable_Record list \<Rightarrow>
   byte list \<Rightarrow> nat \<Rightarrow> Arg list \<Rightarrow> exn option \<times> Arg list" where
  "fetch_from b stod to_string vars data i [] = (None, [])"
| "fetch_from b stod to_string vars data i (arg # args) =
    (case Fetch_Column_Idx b stod to_string vars data i arg of
       Inl e \<Rightarrow> (Some e, arg # args)
     | Inr a \<Rightarrow>
         (fst (fetch_from b stod to_string vars data (Suc i) args),
          a # snd (fetch_from b stod to_string vars data (Suc i) args)))"

text \<open>
  A text has a numeric prefix when, after white space and one sign, it starts with a
  digit, with a point and a digit, or with \<open>inf\<close> or \<open>nan\<close> in either case.
\<close>

definition starts_numeric :: "string \<Rightarrow> bool" where
  "starts_numeric str =
    (let s = dropWhile isspace (takeWhile (\<lambda>ch. ch \<noteq> CHR 0x00) str);
         u = (if s \<noteq> [] \<and> (hd s = CHR ''-'' \<or> hd s = CHR ''+'') then tl s else s)
     in (u \<noteq> [] \<and> isdigit (hd u))
        \<or> (u \<noteq> [] \<and> hd u = CHR ''.'' \<and> tl u \<noteq> [] \<and> isdigit (hd (tl u)))
        \<or> map tolower (take 3 u) = ''inf''
        \<or> map tolower (take 3 u) = ''nan'')"

section \<open>Sample inputs\<close>

text \<open>
  A file of 80-byte blocks: the three headers with their sub-records, the Namestr header
  announcing one variable, its descriptor (Numeric, length 8, offset 100) with the padding
  to the block boundary, the Observation header and a block of data. \<open>truncated k\<close> keeps
  the first \<open>k\<close> blocks and appends a blank one.
\<close>

definition blank_block :: "byte list" where
  "blank_block = replicate 80 (CHR '' '')"

definition header_block :: "string \<Rightarrow> string \<Rightarrow> byte list" where
  "header_block sig cnt =
    ''HEADER RECORD*******'' @ sig @ ''!!!!!!!00000'' @ cnt @ ''00000000000000000000  ''"

definition namestr1_block :: "byte list" where
  "namestr1_block =
    [CHR 0x00, CHR 0x01, CHR 0x00, CHR 0x00, CHR 0x00, CHR 0x08, CHR 0x00, CHR 0x01]
    @ ''X       '' @ replicate 40 (CHR '' '') @ ''        ''
    @ replicate 8 (CHR 0x00) @ ''        ''"

definition namestr2_block :: "byte list" where
  "namestr2_block =
    [CHR 0x00, CHR 0x00, CHR 0x00, CHR 0x00, CHR 0x00, CHR 0x00, CHR 0x00, CHR 0x64]
    @ replicate 52 (CHR 0x00) @ replicate 20 (CHR '' '')"

definition data_block :: "byte list" where
  "data_block = ibm_one @ replicate 72 (CHR '' '')"

definition file_of_blocks :: "byte list list \<Rightarrow> File" where
  "file_of_blocks bs =
    \<lparr>mFile = \<lparr>content = concat bs, gpos = 0, failed = False, requests = []\<rparr>,
     mVariables = [], mRecord_Len = 0\<rparr>"

definition sample_blocks :: "byte list list" where
  "sample_blocks =
    [header_block Header_Signature_Library ''00000'', blank_block, blank_block,
     header_block Header_Signature_Member ''00000'',
     header_block Header_Signature_Descriptor ''00000'', blank_block, blank_block,
     header_block Header_Signature_Namestr ''00001'',
     namestr1_block, namestr2_block,
     header_block Header_Signature_Observation ''00000'',
     data_block]"

definition sample_file :: File where
  "sample_file = file_of_blocks sample_blocks"

definition truncated :: "nat \<Rightarrow> File" where
  "truncated k = file_of_blocks (take k sample_blocks @ [blank_block])"

text \<open>
  Sessions with a table of variables and the bytes of one row: one cut short after three
  of eight bytes, one with a Numeric and two String cells, one with a cell ending in NUL.
  \<open>sample_stod\<close> stands for \<open>std::stod\<close> on the two texts used.
\<close>

definition short_row_file :: File where
  "short_row_file =
    \<lparr>mFile = \<lparr>content = ''abc'', gpos = 0, failed = False, requests = []\<rparr>,
     mVariables = [\<lparr>var_name = ''X'', var_label = [], var_type = Numeric, var_length = 8,
                    varNum = 1, var_position = 0\<rparr>],
     mRecord_Len = 8\<rparr>"

definition session_bytes :: "byte list" where
  "session_bytes = ibm_one @ ''  42.5 '' @ ''abc''"

definition session :: File where
  "session =
    \<lparr>mFile = \<lparr>content = session_bytes, gpos = 0, failed = False, requests = []\<rparr>,
     mVariables =
       [\<lparr>var_name = ''N'', var_label = [], var_type = Numeric, var_length = 8,
         varNum = 1, var_position = 0\<rparr>,
        \<lparr>var_name = ''S'', var_label = [], var_type = String, var_length = 7,
         varNum = 2, var_position = 8\<rparr>,
        \<lparr>var_name = ''T'', var_label = [], var_type = String, var_length = 3,
         varNum = 3, var_position = 15\<rparr>],
     mRecord_Len = 18\<rparr>"

definition nul_session :: File where
  "nul_session =
    \<lparr>mFile = \<lparr>content = [CHR ''A'', CHR 0x00], gpos = 0, failed = False, requests = []\<rparr>,
     mVariables =
       [\<lparr>var_name = ''S'', var_label = [], var_type = String, var_length = 2,
         varNum = 1, var_position = 0\<rparr>],
     mRecord_Len = 2\<rparr>"

definition sample_stod :: "string \<Rightarrow> stod_result" where
  "sample_stod s = (if s = ''42.5'' then stod_value 0x4045400000000000 else stod_invalid_argument)"

definition sample_to_string :: "double \<Rightarrow> string" where
  "sample_to_string d = (if d = 0x3FF0000000000000 then ''1.000000'' else ''?'')"

text \<open>
  Sessions whose row is one String cell, holding \<open>12abc\<close> and \<open>1e999\<close>, and a file
  like the sample file whose only variable is Numeric with length 4 at offset 0.
\<close>

definition prefix_session :: File where
  "prefix_session =
    \<lparr>mFile = \<lparr>content = ''12abc'', gpos = 0, failed = False, requests = []\<rparr>,
     mVariables =
       [\<lparr>var_name = ''S'', var_label = [], var_type = String, var_length = 5,
         varNum = 1, var_position = 0\<rparr>],
     mRecord_Len = 5\<rparr>"

definition range_session :: File where
  "range_session =
    \<lparr>mFile = \<lparr>content = ''1e999'', gpos = 0, failed = False, requests = []\<rparr>,
     mVariables =
       [\<lparr>var_name = ''S'', var_label = [], var_type = String, var_length = 5,
         varNum = 1, var_position = 0\<rparr>],
     mRecord_Len = 5\<rparr>"

definition namestr1_short_block :: "byte list" where
  "namestr1_short_block =
    [CHR 0x00, CHR 0x01, CHR 0x00, CHR 0x00, CHR 0x00, CHR 0x04, CHR 0x00, CHR 0x01]
    @ ''Y       '' @ replicate 40 (CHR '' '') @ ''        ''
    @ replicate 8 (CHR 0x00) @ ''        ''"

definition namestr2_zero_block :: "byte list" where
  "namestr2_zero_block =
    [CHR 0x00, CHR 0x00, CHR 0x00, CHR 0x00, CHR 0x00, CHR 0x00, CHR 0x00, CHR 0x00]
    @ replicate 52 (CHR 0x00) @ replicate 20 (CHR '' '')"

definition short_numeric_blocks :: "byte list list" where
  "short_numeric_blocks =
    [header_block Header_Signature_Library ''00000'', blank_block, blank_block,
     header_block Header_Signature_Member ''00000'',
     header_block Header_Signature_Descriptor ''00000'', blank_block, blank_block,
     header_block Header_Signature_Namestr ''00001'',
     namestr1_short_block, namestr2_zero_block,
     header_block Header_Signature_Observation ''00000'',
     data_block]"

definition short_numeric_file :: File where
  "short_numeric_file = file_of_blocks short_numeric_blocks"

section \<open>The numeric codec: what it computes\<close>

lemma hex_constants:
  "(0x8000000000000000 :: 64 word) = push_bit 63 1"
  "(0x7f00000000000000 :: 64 word) = push_bit 56 (mask 7)"
  "(0x00ffffffffffffff :: 64 word) = mask 56"
  "(0xffefffffffffffff :: 64 word) = NOT (push_bit 52 1)"
  "(0x0080000000000000 :: 64 word) = 2 ^ 55"
  "(0x0040000000000000 :: 64 word) = 2 ^ 54"
  "(0x0020000000000000 :: 64 word) = 2 ^ 53"
  by (simp_all add: mask_eq_exp_minus_1)

lemma big_endian_input: "native_val b (To_Machine_Endian_Raw b raw) = le_val (rev raw)"
  by (simp add: native_val_def To_Machine_Endian_Raw_def)

lemma IbmToIEEE_bits:
  "IbmToIEEE b raw =
    (be_word raw AND push_bit 63 1)
    OR push_bit 52 (push_bit 2 (drop_bit 56 (be_word raw AND push_bit 56 (mask 7)) - 65)
                    + word_of_nat (code_shift (be_word raw)) + 1023)
    OR (drop_bit (code_shift (be_word raw)) (be_word raw AND mask 56) AND NOT (push_bit 52 1))"
  unfolding IbmToIEEE_def big_endian_input hex_constants Let_def and_exp_eq_0_iff_not_bit
    code_shift_def be_word_def
  by simp

lemma code_shift_le: "code_shift w \<le> 3"
  by (simp add: code_shift_def)

lemma exponent_word:
  fixes w :: "64 word"
  shows "push_bit 2 (drop_bit 56 (w AND push_bit 56 (mask 7)) - 65) + word_of_nat s + 1023
    = (word_of_nat (4 * ibm_exponent w + 763 + s) :: 64 word)"
proof -
  have "drop_bit 56 (w AND push_bit 56 (mask 7)) = take_bit 7 (drop_bit 56 w)"
    by (rule bit_eqI) (auto simp add: bit_simps)
  then show ?thesis
    by (simp add: ibm_exponent_def push_bit_eq_mult algebra_simps)
qed

lemma ibm_exponent_less: "ibm_exponent w < 128"
  unfolding ibm_exponent_def unsigned_take_bit_eq
  using take_bit_nat_less_exp [of 7 "unat (drop_bit 56 w)"] by simp

lemma sign_part_low: "n < k \<Longrightarrow> \<not> bit ((w :: 64 word) AND push_bit k 1) n"
  by (auto simp add: bit_simps)

lemma mantissa_part_high:
  fixes w :: "64 word"
  assumes "52 \<le> n"
  shows "\<not> bit (drop_bit (code_shift w) (w AND mask 56) AND NOT (push_bit 52 1)) n"
proof -
  consider "n = 52" | "n = 53" | "n = 54" | "n = 55" | "56 \<le> n" using assms by linarith
  then show ?thesis
    by cases (auto simp add: bit_simps code_shift_def)
qed

lemma mantissa_part_low:
  fixes w :: "64 word"
  shows "take_bit k (drop_bit s (w AND mask j) AND NOT (push_bit k 1)) = take_bit k (drop_bit s (take_bit j w))"
  by (rule bit_eqI) (auto simp add: bit_simps dest: bit_imp_le_length)

lemma ieee_exponent_assembled:
  fixes sg m :: "64 word"
  assumes E: "E < 2048" and sg: "\<And>n. n < 63 \<Longrightarrow> \<not> bit sg n" and m: "\<And>n. 52 \<le> n \<Longrightarrow> \<not> bit m n"
  shows "ieee_exponent (sg OR push_bit 52 (word_of_nat E) OR m) = E"
proof -
  have "take_bit 11 (drop_bit 52 (sg OR push_bit 52 (word_of_nat E) OR m)) = (take_bit 11 (word_of_nat E) :: 64 word)"
    by (rule bit_eqI) (auto simp add: bit_simps sg m)
  moreover have "unat (take_bit 11 (word_of_nat E :: 64 word)) = E"
    using E by (simp add: unsigned_take_bit_eq unat_of_nat take_bit_nat_eq_self_iff)
  ultimately show ?thesis by (simp add: ieee_exponent_def)
qed

lemma ieee_mantissa_assembled:
  fixes sg m :: "64 word"
  assumes sg: "\<And>n. n < 63 \<Longrightarrow> \<not> bit sg n"
  shows "ieee_mantissa (sg OR push_bit 52 e OR m) = take_bit 52 m"
  unfolding ieee_mantissa_def
  by (rule bit_eqI) (auto simp add: bit_simps sg)

lemma ieee_sign_assembled:
  fixes m :: "64 word"
  assumes E: "E < 2048" and m: "\<And>n. 52 \<le> n \<Longrightarrow> \<not> bit m n"
  shows "ieee_sign ((w AND push_bit 63 1) OR push_bit 52 (word_of_nat E) OR m) = bit w 63"
proof -
  have "take_bit 11 E = E"
    using E by (simp add: take_bit_nat_eq_self_iff)
  then have "\<not> bit E 11"
    by (metis bit_take_bit_iff less_irrefl)
  then show ?thesis
    by (auto simp add: ieee_sign_def bit_simps m)
qed

lemma IbmToIEEE_exponent: "ieee_exponent (IbmToIEEE b raw) = 4 * ibm_exponent (be_word raw) + 763 + code_shift (be_word raw)"
proof -
  have "4 * ibm_exponent (be_word raw) + 763 + code_shift (be_word raw) < 2048"
    using ibm_exponent_less [of "be_word raw"] code_shift_le [of "be_word raw"] by linarith
  then show ?thesis
    unfolding IbmToIEEE_bits exponent_word
    by (rule ieee_exponent_assembled) (rule sign_part_low mantissa_part_high, assumption)+
qed

lemma IbmToIEEE_mantissa: "ieee_mantissa (IbmToIEEE b raw) = take_bit 52 (drop_bit (code_shift (be_word raw)) (ibm_mantissa (be_word raw)))"
  unfolding IbmToIEEE_bits ibm_mantissa_def
  by (simp only: ieee_mantissa_assembled [OF sign_part_low] mantissa_part_low)

lemma IbmToIEEE_sign: "ieee_sign (IbmToIEEE b raw) = ibm_sign (be_word raw)"
proof -
  have "4 * ibm_exponent (be_word raw) + 763 + code_shift (be_word raw) < 2048"
    using ibm_exponent_less [of "be_word raw"] code_shift_le [of "be_word raw"] by linarith
  then show ?thesis
    unfolding IbmToIEEE_bits exponent_word ibm_sign_def
    by (rule ieee_sign_assembled) (rule mantissa_part_high, assumption)
qed

lemma code_shift_leading: "code_shift w = 3 - leading_zero_bits w"
  by (simp add: code_shift_def leading_zero_bits_def)

lemma be_word_ibm_one: "be_word ibm_one = 0x4110000000000000"
  by (simp add: be_word_def ibm_one_def)

lemma be_word_zero: "be_word (replicate 8 (CHR 0x00)) = 0"
  by (simp add: be_word_def eval_nat_numeral)

text \<open>
  Claim C1. The all-zero input should map to the double \<open>0.0\<close>, whose pattern is zero.
  The code has no case for it: the exponent field wraps to 763 and the result is the
  pattern of \<open>2 ^ -260\<close>, on either byte order of the host.
\<close>

theorem IbmToIEEE_zero_input:
  "IbmToIEEE native_big (replicate 8 (CHR 0x00)) = 0x2FB0000000000000
   \<and> IbmToIEEE native_big (replicate 8 (CHR 0x00)) \<noteq> 0
   \<and> ieee_exponent (IbmToIEEE native_big (replicate 8 (CHR 0x00))) = 763"
proof -
  have "IbmToIEEE native_big (replicate 8 (CHR 0x00)) = 0x2FB0000000000000"
    unfolding IbmToIEEE_def big_endian_input be_word_def [symmetric] be_word_zero
    by (simp add: Let_def)
  then show ?thesis by (simp add: ieee_exponent_def)
qed

text \<open>
  Claim C2 as stated fails at the IBM encoding of 1.0: the top nibble of its mantissa is
  \<open>0001\<close>, with three leading zero bits, so the stated exponent is 1029 and the stated
  mantissa is not zero, while the code returns the pattern of 1.0, exponent field 1023.
\<close>

theorem IbmToIEEE_spec_formula_counterexample:
  "be_word ibm_one = 0x4110000000000000
   \<and> top_nibble (be_word ibm_one) \<noteq> 0
   \<and> IbmToIEEE False ibm_one = 0x3FF0000000000000
   \<and> int (ieee_exponent (IbmToIEEE False ibm_one)) = 1023
   \<and> spec_exponent (be_word ibm_one) = 1029
   \<and> ieee_mantissa (IbmToIEEE False ibm_one) \<noteq> spec_mantissa (be_word ibm_one)"
proof -
  have r: "IbmToIEEE False ibm_one = 0x3FF0000000000000"
    unfolding IbmToIEEE_def big_endian_input be_word_def [symmetric] be_word_ibm_one
    by (simp add: Let_def)
  have e: "ibm_exponent 0x4110000000000000 = 65"
    by (simp add: ibm_exponent_def)
  have l: "leading_zero_bits 0x4110000000000000 = 3"
    by (simp add: leading_zero_bits_def)
  have m: "spec_mantissa 0x4110000000000000 = 0x2000000000000"
    unfolding spec_mantissa_def l ibm_mantissa_def by simp
  show ?thesis
    unfolding r be_word_ibm_one spec_exponent_def e l m
    by (simp add: top_nibble_def ieee_exponent_def ieee_mantissa_def)
qed

lemma top_nibble_bit: "bit (top_nibble w) n \<longleftrightarrow> n < 4 \<and> bit w (52 + n)"
  by (auto simp add: top_nibble_def bit_simps)

lemma top_nibble_bits:
  "top_nibble w \<noteq> 0 \<longleftrightarrow> bit w 52 \<or> bit w 53 \<or> bit w 54 \<or> bit w 55"
proof
  show "bit w 52 \<or> bit w 53 \<or> bit w 54 \<or> bit w 55" if nz: "top_nibble w \<noteq> 0"
  proof (rule ccontr)
    assume clear: "\<not> (bit w 52 \<or> bit w 53 \<or> bit w 54 \<or> bit w 55)"
    have "top_nibble w = 0"
    proof (rule bit_eqI)
      fix n
      have "\<not> bit (top_nibble w) n"
      proof
        assume "bit (top_nibble w) n"
        then have n: "n < 4" "bit w (52 + n)" by (simp_all add: top_nibble_bit)
        then consider "n = 0" | "n = 1" | "n = 2" | "n = 3" by linarith
        then show False using n(2) clear by cases simp_all
      qed
      then show "bit (top_nibble w) n \<longleftrightarrow> bit (0 :: 64 word) n" by simp
    qed
    then show False using nz by simp
  qed
next
  assume "bit w 52 \<or> bit w 53 \<or> bit w 54 \<or> bit w 55"
  then have "bit (top_nibble w) 0 \<or> bit (top_nibble w) 1 \<or> bit (top_nibble w) 2 \<or> bit (top_nibble w) 3"
    unfolding top_nibble_bit by simp
  then show "top_nibble w \<noteq> 0" by auto
qed

lemma leading_one:
  assumes "top_nibble w \<noteq> 0"
  shows "drop_bit 52 (drop_bit (code_shift w) (ibm_mantissa w)) = 1"
proof (rule bit_eqI)
  fix n :: nat
  have b: "bit w 52 \<or> bit w 53 \<or> bit w 54 \<or> bit w 55"
    using assms by (simp add: top_nibble_bits)
  consider "n = 0" | "n = 1" | "n = 2" | "n = 3" | "4 \<le> n" by linarith
  then show "bit (drop_bit 52 (drop_bit (code_shift w) (ibm_mantissa w))) n \<longleftrightarrow> bit (1 :: 64 word) n"
    using b
    by cases (auto simp add: ibm_mantissa_def code_shift_def bit_simps bit_1_iff)
qed

text \<open>
  Claim C2, amended. For every input with a nonzero top mantissa nibble, the shift is three
  minus the number of leading zero bits of that nibble (the index of its highest set bit),
  the mantissa field is the mantissa shifted right by that shift and cut to 52 bits, the
  bit cut off is the leading one of the shifted mantissa, the exponent field is
  \<open>((ibmExponent - 65) * 4) + shift + 1023\<close>, and the sign is kept.
\<close>

theorem IbmToIEEE_fields:
  assumes "top_nibble (be_word raw) \<noteq> 0"
  shows "ieee_sign (IbmToIEEE native_big raw) = ibm_sign (be_word raw)
    \<and> ieee_mantissa (IbmToIEEE native_big raw)
        = take_bit 52 (drop_bit (3 - leading_zero_bits (be_word raw)) (ibm_mantissa (be_word raw)))
    \<and> drop_bit 52 (drop_bit (3 - leading_zero_bits (be_word raw)) (ibm_mantissa (be_word raw))) = 1
    \<and> int (ieee_exponent (IbmToIEEE native_big raw))
        = ((int (ibm_exponent (be_word raw)) - 65) * 4) + int (3 - leading_zero_bits (be_word raw)) + 1023"
  using leading_one [OF assms]
  by (simp add: IbmToIEEE_sign IbmToIEEE_mantissa IbmToIEEE_exponent code_shift_leading)

theorem IbmToIEEE_fields_witness:
  "top_nibble (be_word ibm_one) \<noteq> 0
   \<and> ieee_sign (IbmToIEEE False ibm_one) = ibm_sign (be_word ibm_one)
   \<and> ieee_mantissa (IbmToIEEE False ibm_one)
        = take_bit 52 (drop_bit (3 - leading_zero_bits (be_word ibm_one)) (ibm_mantissa (be_word ibm_one)))
   \<and> drop_bit 52 (drop_bit (3 - leading_zero_bits (be_word ibm_one)) (ibm_mantissa (be_word ibm_one))) = 1
   \<and> int (ieee_exponent (IbmToIEEE False ibm_one))
        = ((int (ibm_exponent (be_word ibm_one)) - 65) * 4) + int (3 - leading_zero_bits (be_word ibm_one)) + 1023"
proof -
  have h: "top_nibble (be_word ibm_one) \<noteq> 0"
    unfolding be_word_ibm_one by (simp add: top_nibble_def)
  show ?thesis using h IbmToIEEE_fields [OF h, of False] by simp
qed


section \<open>The stream and the header reader\<close>

lemma consumed_simps [simp]:
  "gpos (mFile (consumed n fl)) = gpos (mFile fl) + n"
  "failed (mFile (consumed n fl)) = False"
  "content (mFile (consumed n fl)) = content (mFile fl)"
  "requests (mFile (consumed n fl)) = requests (mFile fl) @ [Req_read n]"
  "mVariables (consumed n fl) = mVariables fl"
  "mRecord_Len (consumed n fl) = mRecord_Len fl"
  by (simp_all add: consumed_def)

lemma Read_eq:
  assumes "\<not> failed (mFile fl)"
  shows "Read sz padded fl =
    (let n = (if padded then 80 else sz) in
     if n \<le> length (content (mFile fl)) - gpos (mFile fl)
     then (Inr (take sz (field (gpos (mFile fl)) n (content (mFile fl)))), consumed n fl)
     else (Inl CEOF_Exception, short_read n fl))"
  using assms
  by (auto simp add: Read_def ifstream_read_def consumed_def short_read_def field_def Let_def min_def)

lemma Read_padded:
  assumes "\<not> failed (mFile fl)"
  shows "Read sz True fl =
    (if gpos (mFile fl) + 80 \<le> length (content (mFile fl))
     then (Inr (take sz (field (gpos (mFile fl)) 80 (content (mFile fl)))), consumed 80 fl)
     else (Inl CEOF_Exception, short_read 80 fl))"
proof -
  have "80 \<le> length (content (mFile fl)) - gpos (mFile fl)
    \<longleftrightarrow> gpos (mFile fl) + 80 \<le> length (content (mFile fl))"
    by linarith
  then show ?thesis using Read_eq [OF assms, of sz True] by simp
qed

lemma Read_unpadded:
  assumes "\<not> failed (mFile fl)" and "0 < sz"
  shows "Read sz False fl =
    (if gpos (mFile fl) + sz \<le> length (content (mFile fl))
     then (Inr (field (gpos (mFile fl)) sz (content (mFile fl))), consumed sz fl)
     else (Inl CEOF_Exception, short_read sz fl))"
proof -
  have "sz \<le> length (content (mFile fl)) - gpos (mFile fl)
    \<longleftrightarrow> gpos (mFile fl) + sz \<le> length (content (mFile fl))"
    using assms(2) by linarith
  then show ?thesis using Read_eq [OF assms(1), of sz False] by (simp add: Let_def field_def)
qed

lemma namedesc_take: "namedesc (take sizeof_Data_Header_Generic b) = namedesc b"
  by (simp add: namedesc_def field_def sizeof_Data_Header_Generic_def take_drop min_def)

lemma Recognize_take [simp]:
  "Recognize_Data_Header (take sizeof_Data_Header_Generic b) = Recognize_Data_Header b"
  by (simp add: Recognize_Data_Header_def namedesc_take)

lemma stage_library:
  assumes nf: "\<not> failed (mFile fl)"
    and len: "gpos (mFile fl) + 80 \<le> length (content (mFile fl))"
    and sig: "Recognize_Data_Header (header_at 0 fl) \<noteq> Library"
  shows "Read_Headers b fl = (Inr No_Library_Header, consumed 80 fl)"
  using assms
  by (simp add: Read_Headers_def bnd_def ret_def Read_padded header_at_def)

lemma stage_member:
  assumes nf: "\<not> failed (mFile fl)"
    and len: "gpos (mFile fl) + 320 \<le> length (content (mFile fl))"
    and sig: "Recognize_Data_Header (header_at 0 fl) = Library"
      "Recognize_Data_Header (header_at 3 fl) \<noteq> Member"
  shows "Read_Headers b fl = (Inr No_Member_Header, (consumed 80 ^^ 4) fl)"
  using assms
  by (simp add: Read_Headers_def bnd_def ret_def Read_padded header_at_def eval_nat_numeral add.assoc)


lemma consumed_funpow [simp]:
  "gpos (mFile ((consumed n ^^ k) fl)) = gpos (mFile fl) + n * k"
  "content (mFile ((consumed n ^^ k) fl)) = content (mFile fl)"
  "requests (mFile ((consumed n ^^ k) fl)) = requests (mFile fl) @ replicate k (Req_read n)"
  "mVariables ((consumed n ^^ k) fl) = mVariables fl"
  "mRecord_Len ((consumed n ^^ k) fl) = mRecord_Len fl"
  by (induction k) (simp_all add: replicate_append_same)

lemma consumed_funpow_failed [simp]:
  "\<not> failed (mFile fl) \<Longrightarrow> \<not> failed (mFile ((consumed n ^^ k) fl))"
  by (induction k) simp_all

lemma namestr_step_simps [simp]:
  "gpos (mFile (namestr_step b fl)) = gpos (mFile fl) + 140"
  "failed (mFile (namestr_step b fl)) = False"
  "content (mFile (namestr_step b fl)) = content (mFile fl)"
  "requests (mFile (namestr_step b fl)) = requests (mFile fl) @ [Req_read 80, Req_read 60]"
  "mVariables (namestr_step b fl) = mVariables fl @
     [make_Variable_Record b (field (gpos (mFile fl)) 80 (content (mFile fl)))
        (field (gpos (mFile fl) + 80) 60 (content (mFile fl)))]"
  "mRecord_Len (namestr_step b fl) = (mRecord_Len fl + var_length
     (make_Variable_Record b (field (gpos (mFile fl)) 80 (content (mFile fl)))
        (field (gpos (mFile fl) + 80) 60 (content (mFile fl))))) mod 2 ^ 64"
  by (simp_all add: namestr_step_def Let_def)

lemma namestr_funpow_stream [simp]:
  "gpos (mFile ((namestr_step b ^^ n) fl)) = gpos (mFile fl) + 140 * n"
  "content (mFile ((namestr_step b ^^ n) fl)) = content (mFile fl)"
  "requests (mFile ((namestr_step b ^^ n) fl))
     = requests (mFile fl) @ concat (replicate n [Req_read 80, Req_read 60])"
proof (induction n)
  case 0
  { case 1 show ?case by simp next
    case 2 show ?case by simp next
    case 3 show ?case by simp }
next
  case (Suc n)
  { case 1 show ?case using Suc by simp next
    case 2 show ?case using Suc by simp next
    case 3 
    have "concat (replicate n [Req_read 80, Req_read 60]) @ [Req_read 80, Req_read 60]
      = concat (replicate (Suc n) [Req_read 80, Req_read 60])"
      by (induction n) simp_all
    then show ?case using Suc by simp }
qed

lemma namestr_funpow_failed [simp]:
  "\<not> failed (mFile fl) \<Longrightarrow> \<not> failed (mFile ((namestr_step b ^^ n) fl))"
  by (induction n) simp_all

lemma namestr_funpow_vars:
  "mVariables ((namestr_step b ^^ n) fl)
     = mVariables fl @ descriptors b (content (mFile fl)) (gpos (mFile fl)) n"
  by (induction n) (simp_all add: descriptors_def add.assoc)

lemma namestr_funpow_len:
  "mRecord_Len fl < 2 ^ 64 \<Longrightarrow> mRecord_Len ((namestr_step b ^^ n) fl)
     = (mRecord_Len fl + sum_list (map var_length (descriptors b (content (mFile fl)) (gpos (mFile fl)) n))) mod 2 ^ 64"
proof (induction n)
  case 0
  then show ?case by (simp add: descriptors_def)
next
  case (Suc n)
  then show ?case
    by (simp add: descriptors_def add.assoc mod_add_left_eq)
qed

lemma Read_Namestrs_ok:
  assumes "\<not> failed (mFile fl)" and "gpos (mFile fl) + 140 * n \<le> length (content (mFile fl))"
    and "rc < 2 ^ 64"
  shows "Read_Namestrs b n rc fl = (Inr ((rc + 140 * n) mod 2 ^ 64), (namestr_step b ^^ n) fl)"
  using assms
proof (induction n arbitrary: rc fl)
  case 0
  then show ?case by (simp add: ret_def)
next
  case (Suc n)
  let ?fl = "namestr_step b fl"
  have 1: "\<not> failed (mFile ?fl)" by simp
  have 2: "gpos (mFile ?fl) + 140 * n \<le> length (content (mFile ?fl))"
    using Suc.prems(2) by simp
  have 3: "(rc + 140) mod 2 ^ 64 < (2 ^ 64 :: nat)" by simp
  have step: "Read_Namestrs b (Suc n) rc fl = Read_Namestrs b n ((rc + 140) mod 2 ^ 64) ?fl"
    using Suc.prems(1,2)
    by (simp add: bnd_def Read_unpadded sizeof_Namestr_Record_1_def sizeof_Namestr_Record_2_def
        namestr_step_def Let_def)
  show ?case
    unfolding step Suc.IH [OF 1 2 3]
    by (simp add: funpow_swap1 mod_add_left_eq add.assoc)
qed

lemma Read_Namestrs_short:
  assumes "\<not> failed (mFile fl)" and "length (content (mFile fl)) < gpos (mFile fl) + 140 * n"
    and "gpos (mFile fl) \<le> length (content (mFile fl))"
  shows "fst (Read_Namestrs b n rc fl) = Inl CEOF_Exception"
  using assms
proof (induction n arbitrary: rc fl)
  case 0
  then show ?case by simp
next
  case (Suc n)
  let ?fl = "namestr_step b fl"
  show ?case
  proof (cases "gpos (mFile fl) + 140 \<le> length (content (mFile fl))")
    case True
    have 1: "\<not> failed (mFile ?fl)" by simp
    have 2: "length (content (mFile ?fl)) < gpos (mFile ?fl) + 140 * n"
      using Suc.prems(2) by simp
    have step: "Read_Namestrs b (Suc n) rc fl = Read_Namestrs b n ((rc + 140) mod 2 ^ 64) ?fl"
      using Suc.prems(1) True
      by (simp add: bnd_def Read_unpadded sizeof_Namestr_Record_1_def sizeof_Namestr_Record_2_def
          namestr_step_def Let_def)
    have 3: "gpos (mFile ?fl) \<le> length (content (mFile ?fl))"
      using True by simp
    show ?thesis unfolding step by (rule Suc.IH [OF 1 2 3])
  next
    case False
    then show ?thesis
      using Suc.prems(1)
      by (simp add: bnd_def Read_unpadded sizeof_Namestr_Record_1_def sizeof_Namestr_Record_2_def)
  qed
qed


lemma after_headers_simps [simp]:
  "gpos (mFile (after_headers fl)) = gpos (mFile fl) + 640"
  "failed (mFile (after_headers fl)) = False"
  "content (mFile (after_headers fl)) = content (mFile fl)"
  "requests (mFile (after_headers fl)) = requests (mFile fl) @ replicate 8 (Req_read 80)"
  "mVariables (after_headers fl) = mVariables fl"
  "mRecord_Len (after_headers fl) = 0"
  by (simp_all add: after_headers_def eval_nat_numeral)

lemma padding_cases: "padding rc = (if rc mod 80 \<noteq> 0 then 80 - rc mod 80 else 0)"
  by (simp add: padding_def)

lemma Read_Padding_eq:
  "Read_Padding rc fl = (Inr (), if padding rc = 0 then fl else Read_Discard (padding rc) fl)"
  by (simp add: Read_Padding_def padding_cases Let_def)

lemma Read_Discard_simps [simp]:
  "gpos (mFile (Read_Discard n fl)) = (if failed (mFile fl) then gpos (mFile fl) else gpos (mFile fl) + n)"
  "failed (mFile (Read_Discard n fl)) = failed (mFile fl)"
  "content (mFile (Read_Discard n fl)) = content (mFile fl)"
  "requests (mFile (Read_Discard n fl)) = requests (mFile fl) @ [Req_seekg n]"
  "mVariables (Read_Discard n fl) = mVariables fl"
  "mRecord_Len (Read_Discard n fl) = mRecord_Len fl"
  by (simp_all add: Read_Discard_def ifstream_seekg_cur_def)

lemma before_observation_simps:
  "gpos (mFile (before_observation b cnt fl))
     = gpos (mFile fl) + 640 + 140 * cnt + padding ((140 * cnt) mod 2 ^ 64)"
  "failed (mFile (before_observation b cnt fl)) = False"
  "content (mFile (before_observation b cnt fl)) = content (mFile fl)"
  "requests (mFile (before_observation b cnt fl))
     = requests (mFile fl) @ replicate 8 (Req_read 80)
        @ concat (replicate cnt [Req_read 80, Req_read 60])
        @ (if padding ((140 * cnt) mod 2 ^ 64) = 0 then []
           else [Req_seekg (padding ((140 * cnt) mod 2 ^ 64))])"
  "mVariables (before_observation b cnt fl)
     = mVariables fl @ descriptors b (content (mFile fl)) (gpos (mFile fl) + 640) cnt"
  "mRecord_Len (before_observation b cnt fl)
     = sum_list (map var_length (descriptors b (content (mFile fl)) (gpos (mFile fl) + 640) cnt)) mod 2 ^ 64"
  by (simp_all add: before_observation_def Read_Padding_eq namestr_funpow_vars namestr_funpow_len)

lemma stage_descriptor:
  assumes nf: "\<not> failed (mFile fl)"
    and len: "gpos (mFile fl) + 400 \<le> length (content (mFile fl))"
    and sig: "Recognize_Data_Header (header_at 0 fl) = Library"
      "Recognize_Data_Header (header_at 3 fl) = Member"
      "Recognize_Data_Header (header_at 4 fl) \<noteq> Descriptor"
  shows "Read_Headers b fl = (Inr No_Descriptor_Header, (consumed 80 ^^ 5) fl)"
  using assms
  by (simp add: Read_Headers_def bnd_def ret_def Read_padded header_at_def eval_nat_numeral add.assoc)

lemma stage_namestr:
  assumes nf: "\<not> failed (mFile fl)"
    and len: "gpos (mFile fl) + 640 \<le> length (content (mFile fl))"
    and sig: "Recognize_Data_Header (header_at 0 fl) = Library"
      "Recognize_Data_Header (header_at 3 fl) = Member"
      "Recognize_Data_Header (header_at 4 fl) = Descriptor"
      "Recognize_Data_Header (header_at 7 fl) \<noteq> Namestr"
  shows "Read_Headers b fl = (Inr No_Namestr_Header, (consumed 80 ^^ 8) fl)"
  using assms
  by (simp add: Read_Headers_def bnd_def ret_def Read_padded header_at_def eval_nat_numeral add.assoc)

lemma Read_Headers_tail:
  assumes nf: "\<not> failed (mFile fl)"
    and len: "gpos (mFile fl) + 640 + 140 * cnt \<le> length (content (mFile fl))"
    and sig: "Recognize_Data_Header (header_at 0 fl) = Library"
      "Recognize_Data_Header (header_at 3 fl) = Member"
      "Recognize_Data_Header (header_at 4 fl) = Descriptor"
      "Recognize_Data_Header (header_at 7 fl) = Namestr"
    and cnt: "stoull (num2 (header_at 7 fl)) = Inr cnt"
  shows "Read_Headers b fl =
    (let s = before_observation b cnt fl in
     if gpos (mFile s) + 80 \<le> length (content (mFile fl))
     then (Inr (if Recognize_Data_Header (field (gpos (mFile s)) 80 (content (mFile fl))) = Observation
                then Ok else No_Observation_Header), consumed 80 s)
     else (Inl CEOF_Exception, short_read 80 s))"
proof -
  let ?s8 = "after_headers fl"
  have loop: "Read_Namestrs b cnt 0 ?s8 = (Inr ((140 * cnt) mod 2 ^ 64), (namestr_step b ^^ cnt) ?s8)"
    using Read_Namestrs_ok [of ?s8 cnt 0 b] len by simp
  have nf9: "\<not> failed (mFile (before_observation b cnt fl))"
    by (simp add: before_observation_simps)
  have pre: "Read_Headers b fl =
    bnd (Read_Namestrs b cnt 0) (\<lambda>readCnt.
    bnd (Read_Padding readCnt) (\<lambda>_.
    bnd (Read sizeof_Data_Header_Generic True) (\<lambda>hdr.
    if Recognize_Data_Header hdr \<noteq> Observation then ret No_Observation_Header else
    ret Ok))) ?s8"
    using nf len sig cnt
    by (simp add: Read_Headers_def bnd_def ret_def Read_padded header_at_def after_headers_def add.assoc)
  show ?thesis
    unfolding pre
    by (simp add: bnd_def [of "Read_Namestrs b cnt 0"] loop bnd_def [of "Read_Padding _"]
        Read_Padding_eq bnd_def [of "Read _ _"] Read_padded nf9 [unfolded before_observation_def Read_Padding_eq, simplified]
        before_observation_def ret_def Let_def)
qed


lemma bnd_Inl: "fst (m fl) = Inl e \<Longrightarrow> fst (bnd m k fl) = Inl e"
  by (cases "m fl") (simp add: bnd_def)

lemma bnd_const: "bnd (\<lambda>fl'. (Inr a, fl')) k fl = k a fl"
  by (simp add: bnd_def)

lemma Read_Headers_early:
  assumes nf: "\<not> failed (mFile fl)"
    and "\<not> (gpos (mFile fl) + 640 \<le> length (content (mFile fl))
        \<and> Recognize_Data_Header (header_at 0 fl) = Library
        \<and> Recognize_Data_Header (header_at 3 fl) = Member
        \<and> Recognize_Data_Header (header_at 4 fl) = Descriptor
        \<and> Recognize_Data_Header (header_at 7 fl) = Namestr)"
  shows "fst (Read_Headers b fl) \<noteq> Inr Ok \<and> fst (Read_Headers b fl) \<noteq> Inr No_Observation_Header"
  using assms
  by (simp add: Read_Headers_def bnd_def ret_def Read_padded header_at_def add.assoc)

lemma Read_Headers_reached:
  assumes nf: "\<not> failed (mFile fl)"
    and res: "fst (Read_Headers b fl) = Inr Ok \<or> fst (Read_Headers b fl) = Inr No_Observation_Header"
  shows "\<exists>cnt. stoull (num2 (header_at 7 fl)) = Inr cnt
    \<and> gpos (mFile fl) + 640 + 140 * cnt \<le> length (content (mFile fl))
    \<and> Recognize_Data_Header (header_at 0 fl) = Library
    \<and> Recognize_Data_Header (header_at 3 fl) = Member
    \<and> Recognize_Data_Header (header_at 4 fl) = Descriptor
    \<and> Recognize_Data_Header (header_at 7 fl) = Namestr"
proof -
  have pre: "gpos (mFile fl) + 640 \<le> length (content (mFile fl))"
    "Recognize_Data_Header (header_at 0 fl) = Library"
    "Recognize_Data_Header (header_at 3 fl) = Member"
    "Recognize_Data_Header (header_at 4 fl) = Descriptor"
    "Recognize_Data_Header (header_at 7 fl) = Namestr"
    using Read_Headers_early [OF nf, of b] res by blast+
  let ?s8 = "after_headers fl"
  have eq: "Read_Headers b fl =
    bnd (\<lambda>fl'. (stoull (num2 (header_at 7 fl)), fl')) (\<lambda>cnt.
    bnd (Read_Namestrs b cnt 0) (\<lambda>readCnt.
    bnd (Read_Padding readCnt) (\<lambda>_.
    bnd (Read sizeof_Data_Header_Generic True) (\<lambda>hdr.
    if Recognize_Data_Header hdr \<noteq> Observation then ret No_Observation_Header else
    ret Ok)))) ?s8"
    using nf pre
    by (simp add: Read_Headers_def bnd_def ret_def Read_padded header_at_def after_headers_def add.assoc)
  obtain cnt where cnt: "stoull (num2 (header_at 7 fl)) = Inr cnt"
    using res unfolding eq by (cases "stoull (num2 (header_at 7 fl))") (simp_all add: bnd_def)
  have "gpos (mFile fl) + 640 + 140 * cnt \<le> length (content (mFile fl))"
  proof (rule ccontr)
    assume "\<not> ?thesis"
    then have "fst (Read_Namestrs b cnt 0 ?s8) = Inl CEOF_Exception"
      using pre(1) by (intro Read_Namestrs_short) simp_all
    then have "fst (Read_Headers b fl) = Inl CEOF_Exception"
      unfolding eq cnt bnd_const by (rule bnd_Inl)
    then show False using res by simp
  qed
  then show ?thesis using cnt pre by blast
qed

section \<open>Missing headers\<close>

lemma field_concat_blocks:
  assumes "\<forall>x \<in> set bs. length x = n" and "k < length bs"
  shows "field (n * k) n (concat bs) = bs ! k"
  using assms
proof (induction bs arbitrary: k)
  case Nil
  then show ?case by simp
next
  case (Cons x xs)
  show ?case
  proof (cases k)
    case 0
    then show ?thesis using Cons.prems by (simp add: field_def)
  next
    case (Suc j)
    have "field (n * j) n (concat xs) = xs ! j"
      using Cons.prems Suc by (intro Cons.IH) simp_all
    then show ?thesis using Cons.prems Suc by (simp add: field_def)
  qed
qed

lemma length_blocks [simp]:
  "length blank_block = 80"
  "length namestr1_block = 80"
  "length namestr2_block = 80"
  "length data_block = 80"
  by (simp_all add: blank_block_def namestr1_block_def namestr2_block_def data_block_def ibm_one_def)

lemma length_header_block [simp]:
  "length sig = 21 \<Longrightarrow> length cnt = 5 \<Longrightarrow> length (header_block sig cnt) = 80"
  by (simp add: header_block_def)

lemma length_signatures [simp]:
  "length Header_Signature_Library = 21"
  "length Header_Signature_Member = 21"
  "length Header_Signature_Descriptor = 21"
  "length Header_Signature_Namestr = 21"
  "length Header_Signature_Observation = 21"
  by (simp_all add: Header_Signature_Library_def Header_Signature_Member_def
      Header_Signature_Descriptor_def Header_Signature_Namestr_def Header_Signature_Observation_def)

lemma namedesc_header_block [simp]:
  "length sig = 21 \<Longrightarrow> namedesc (header_block sig cnt) = sig"
  by (simp add: namedesc_def field_def header_block_def)

lemma num2_header_block:
  "length sig = 21 \<Longrightarrow> length cnt = 5 \<Longrightarrow> num2 (take sizeof_Data_Header_Generic (header_block sig cnt)) = cnt"
  by (simp add: num2_def field_def header_block_def sizeof_Data_Header_Generic_def)

lemma namedesc_blank: "namedesc blank_block = replicate 21 (CHR '' '')"
  by (simp add: namedesc_def field_def blank_block_def)

lemma Recognize_header_block [simp]:
  "Recognize_Data_Header (header_block Header_Signature_Library cnt) = Library"
  "Recognize_Data_Header (header_block Header_Signature_Member cnt) = Member"
  "Recognize_Data_Header (header_block Header_Signature_Descriptor cnt) = Descriptor"
  "Recognize_Data_Header (header_block Header_Signature_Namestr cnt) = Namestr"
  "Recognize_Data_Header (header_block Header_Signature_Observation cnt) = Observation"
  unfolding Recognize_Data_Header_def
  by (simp_all add: Signature_Map_def)
    (simp_all add: Header_Signature_Library_def Header_Signature_Member_def
      Header_Signature_Descriptor_def Header_Signature_Namestr_def Header_Signature_Observation_def)

lemma Recognize_blank [simp]: "Recognize_Data_Header blank_block = Sig_None"
  unfolding Recognize_Data_Header_def namedesc_blank
  by (simp add: Signature_Map_def Header_Signature_Library_def Header_Signature_Member_def
      Header_Signature_Descriptor_def Header_Signature_Namestr_def Header_Signature_Observation_def
      eval_nat_numeral)

lemma stoull_1: "stoull ''00001'' = Inr 1"
  by (simp add: stoull_def isspace_def isdigit_def Let_def)

lemma header_at_blocks:
  assumes "\<forall>x \<in> set bs. length x = 80" and "k < length bs"
  shows "header_at k (file_of_blocks bs) = take sizeof_Data_Header_Generic (bs ! k)"
  using field_concat_blocks [OF assms] by (simp add: header_at_def file_of_blocks_def)

lemma sample_blocks_80: "\<forall>x \<in> set sample_blocks. length x = 80"
  by (simp add: sample_blocks_def)

lemma length_concat_blocks:
  "\<forall>x \<in> set bs. length x = n \<Longrightarrow> length (concat bs) = n * length bs"
  by (induction bs) simp_all

lemma length_sample_blocks: "length sample_blocks = 12"
  by (simp add: sample_blocks_def)

lemma sample_header_at:
  "k < 11 \<Longrightarrow> header_at k (file_of_blocks sample_blocks)
    = take sizeof_Data_Header_Generic (sample_blocks ! k)"
  using header_at_blocks [OF sample_blocks_80, of k] by (simp add: length_sample_blocks)

lemma sample_headers:
  "Recognize_Data_Header (header_at 0 (file_of_blocks sample_blocks)) = Library"
  "Recognize_Data_Header (header_at 1 (file_of_blocks sample_blocks)) = Sig_None"
  "Recognize_Data_Header (header_at 2 (file_of_blocks sample_blocks)) = Sig_None"
  "Recognize_Data_Header (header_at 3 (file_of_blocks sample_blocks)) = Member"
  "Recognize_Data_Header (header_at 4 (file_of_blocks sample_blocks)) = Descriptor"
  "Recognize_Data_Header (header_at 7 (file_of_blocks sample_blocks)) = Namestr"
  "stoull (num2 (header_at 7 (file_of_blocks sample_blocks))) = Inr 1"
  by (simp_all add: sample_header_at)
     (simp_all add: sample_blocks_def num2_header_block stoull_1)


lemma small_total:
  assumes "gpos (mFile fl) + 640 + 140 * cnt \<le> length (content (mFile fl))"
    and "length (content (mFile fl)) < 2 ^ 64"
  shows "(140 * cnt) mod 18446744073709551616 = 140 * cnt"
  using assms by simp

lemma stage_observation:
  assumes nf: "\<not> failed (mFile fl)"
    and small: "length (content (mFile fl)) < 2 ^ 64"
    and len: "gpos (mFile fl) + 640 + 140 * cnt + padding (140 * cnt) + 80 \<le> length (content (mFile fl))"
    and sig: "Recognize_Data_Header (header_at 0 fl) = Library"
      "Recognize_Data_Header (header_at 3 fl) = Member"
      "Recognize_Data_Header (header_at 4 fl) = Descriptor"
      "Recognize_Data_Header (header_at 7 fl) = Namestr"
    and cnt: "stoull (num2 (header_at 7 fl)) = Inr cnt"
  shows "Read_Headers b fl =
    (Inr (if Recognize_Data_Header (observation_header_at cnt fl) = Observation
          then Ok else No_Observation_Header),
     consumed 80 (before_observation b cnt fl))"
proof -
  have len': "gpos (mFile fl) + 640 + 140 * cnt \<le> length (content (mFile fl))"
    using len by simp
  have m: "(140 * cnt) mod 18446744073709551616 = 140 * cnt"
    using small_total [OF len' small] .
  show ?thesis
    unfolding Read_Headers_tail [OF nf len' sig cnt]
    using len by (simp add: Let_def before_observation_simps m observation_header_at_def)
qed

text \<open>
  Claim C3. At each of the five stages, a block without the expected signature makes
  \<open>Read_Headers\<close> return the status of that stage, and the last request made to the stream
  is the read of that block.
\<close>

theorem Read_Headers_missing_header:
  assumes "\<not> failed (mFile fl)"
  shows "(gpos (mFile fl) + 80 \<le> length (content (mFile fl)) \<longrightarrow>
          Recognize_Data_Header (header_at 0 fl) \<noteq> Library \<longrightarrow>
          stops_after b fl No_Library_Header (replicate 1 (Req_read 80)) 80)
    \<and> (gpos (mFile fl) + 320 \<le> length (content (mFile fl)) \<longrightarrow>
          Recognize_Data_Header (header_at 0 fl) = Library \<longrightarrow>
          Recognize_Data_Header (header_at 3 fl) \<noteq> Member \<longrightarrow>
          stops_after b fl No_Member_Header (replicate 4 (Req_read 80)) 320)
    \<and> (gpos (mFile fl) + 400 \<le> length (content (mFile fl)) \<longrightarrow>
          Recognize_Data_Header (header_at 0 fl) = Library \<longrightarrow>
          Recognize_Data_Header (header_at 3 fl) = Member \<longrightarrow>
          Recognize_Data_Header (header_at 4 fl) \<noteq> Descriptor \<longrightarrow>
          stops_after b fl No_Descriptor_Header (replicate 5 (Req_read 80)) 400)
    \<and> (gpos (mFile fl) + 640 \<le> length (content (mFile fl)) \<longrightarrow>
          Recognize_Data_Header (header_at 0 fl) = Library \<longrightarrow>
          Recognize_Data_Header (header_at 3 fl) = Member \<longrightarrow>
          Recognize_Data_Header (header_at 4 fl) = Descriptor \<longrightarrow>
          Recognize_Data_Header (header_at 7 fl) \<noteq> Namestr \<longrightarrow>
          stops_after b fl No_Namestr_Header (replicate 8 (Req_read 80)) 640)
    \<and> (length (content (mFile fl)) < 2 ^ 64 \<longrightarrow>
          gpos (mFile fl) + 640 + 140 * cnt + padding (140 * cnt) + 80 \<le> length (content (mFile fl)) \<longrightarrow>
          Recognize_Data_Header (header_at 0 fl) = Library \<longrightarrow>
          Recognize_Data_Header (header_at 3 fl) = Member \<longrightarrow>
          Recognize_Data_Header (header_at 4 fl) = Descriptor \<longrightarrow>
          Recognize_Data_Header (header_at 7 fl) = Namestr \<longrightarrow>
          stoull (num2 (header_at 7 fl)) = Inr cnt \<longrightarrow>
          Recognize_Data_Header (observation_header_at cnt fl) \<noteq> Observation \<longrightarrow>
          stops_after b fl No_Observation_Header
            (replicate 8 (Req_read 80) @ concat (replicate cnt [Req_read 80, Req_read 60])
              @ (if padding (140 * cnt) = 0 then [] else [Req_seekg (padding (140 * cnt))])
              @ [Req_read 80])
            (640 + 140 * cnt + padding (140 * cnt) + 80))"
proof (intro conjI impI)
  assume "gpos (mFile fl) + 80 \<le> length (content (mFile fl))"
    "Recognize_Data_Header (header_at 0 fl) \<noteq> Library"
  from stage_library [OF assms this]
  show "stops_after b fl No_Library_Header (replicate 1 (Req_read 80)) 80"
    by (simp add: stops_after_def)
next
  assume "gpos (mFile fl) + 320 \<le> length (content (mFile fl))"
    "Recognize_Data_Header (header_at 0 fl) = Library"
    "Recognize_Data_Header (header_at 3 fl) \<noteq> Member"
  from stage_member [OF assms this]
  show "stops_after b fl No_Member_Header (replicate 4 (Req_read 80)) 320"
    by (simp add: stops_after_def)
next
  assume "gpos (mFile fl) + 400 \<le> length (content (mFile fl))"
    "Recognize_Data_Header (header_at 0 fl) = Library"
    "Recognize_Data_Header (header_at 3 fl) = Member"
    "Recognize_Data_Header (header_at 4 fl) \<noteq> Descriptor"
  from stage_descriptor [OF assms this]
  show "stops_after b fl No_Descriptor_Header (replicate 5 (Req_read 80)) 400"
    by (simp add: stops_after_def)
next
  assume "gpos (mFile fl) + 640 \<le> length (content (mFile fl))"
    "Recognize_Data_Header (header_at 0 fl) = Library"
    "Recognize_Data_Header (header_at 3 fl) = Member"
    "Recognize_Data_Header (header_at 4 fl) = Descriptor"
    "Recognize_Data_Header (header_at 7 fl) \<noteq> Namestr"
  from stage_namestr [OF assms this]
  show "stops_after b fl No_Namestr_Header (replicate 8 (Req_read 80)) 640"
    by (simp add: stops_after_def)
next
  assume small: "length (content (mFile fl)) < 2 ^ 64"
    and len: "gpos (mFile fl) + 640 + 140 * cnt + padding (140 * cnt) + 80 \<le> length (content (mFile fl))"
    and sig: "Recognize_Data_Header (header_at 0 fl) = Library"
    "Recognize_Data_Header (header_at 3 fl) = Member"
    "Recognize_Data_Header (header_at 4 fl) = Descriptor"
    "Recognize_Data_Header (header_at 7 fl) = Namestr"
    and cnt: "stoull (num2 (header_at 7 fl)) = Inr cnt"
    and obs: "Recognize_Data_Header (observation_header_at cnt fl) \<noteq> Observation"
  have len': "gpos (mFile fl) + 640 + 140 * cnt \<le> length (content (mFile fl))"
    using len by simp
  have m: "(140 * cnt) mod 18446744073709551616 = 140 * cnt"
    using small_total [OF len' small] .
  show "stops_after b fl No_Observation_Header
            (replicate 8 (Req_read 80) @ concat (replicate cnt [Req_read 80, Req_read 60])
              @ (if padding (140 * cnt) = 0 then [] else [Req_seekg (padding (140 * cnt))])
              @ [Req_read 80])
            (640 + 140 * cnt + padding (140 * cnt) + 80)"
    unfolding stops_after_def stage_observation [OF assms small len sig cnt]
    using obs by (simp add: before_observation_simps m)
qed


lemma file_of_blocks_simps [simp]:
  "failed (mFile (file_of_blocks bs)) = False"
  "gpos (mFile (file_of_blocks bs)) = 0"
  "requests (mFile (file_of_blocks bs)) = []"
  "content (mFile (file_of_blocks bs)) = concat bs"
  "mVariables (file_of_blocks bs) = []"
  "mRecord_Len (file_of_blocks bs) = 0"
  by (simp_all add: file_of_blocks_def)

lemma truncated_80: "\<forall>x \<in> set (take k sample_blocks @ [blank_block]). length x = 80"
  using sample_blocks_80 by (auto dest: in_set_takeD)

lemma truncated_length:
  "k \<le> 11 \<Longrightarrow> length (content (mFile (truncated k))) = 80 * (k + 1)"
  using length_concat_blocks [OF truncated_80, of k]
  by (simp add: truncated_def length_sample_blocks)

lemma truncated_header_at:
  "k \<le> 11 \<Longrightarrow> j \<le> k \<Longrightarrow> header_at j (truncated k)
    = take sizeof_Data_Header_Generic ((take k sample_blocks @ [blank_block]) ! j)"
  unfolding truncated_def
  by (rule header_at_blocks [OF truncated_80]) (simp add: length_sample_blocks)

lemma padding_140: "padding 140 = 20"
  by (simp add: padding_def)

lemma truncated_observation:
  "observation_header_at (Suc 0) (truncated 10) = blank_block"
proof -
  have "field (80 * 10) 80 (concat (take 10 sample_blocks @ [blank_block]))
      = (take 10 sample_blocks @ [blank_block]) ! 10"
    by (rule field_concat_blocks [OF truncated_80]) (simp add: length_sample_blocks)
  then show ?thesis
    by (simp add: observation_header_at_def padding_140 truncated_def sample_blocks_def)
qed

lemma truncated_0:
  "Recognize_Data_Header (header_at 0 (truncated 0)) = Sig_None"
  by (simp add: truncated_header_at)

lemma truncated_3:
  "Recognize_Data_Header (header_at 0 (truncated 3)) = Library"
  "Recognize_Data_Header (header_at 3 (truncated 3)) = Sig_None"
  by (simp_all add: truncated_header_at) (simp_all add: sample_blocks_def)

lemma truncated_4:
  "Recognize_Data_Header (header_at 0 (truncated 4)) = Library"
  "Recognize_Data_Header (header_at 3 (truncated 4)) = Member"
  "Recognize_Data_Header (header_at 4 (truncated 4)) = Sig_None"
  by (simp_all add: truncated_header_at) (simp_all add: sample_blocks_def)

lemma truncated_7:
  "Recognize_Data_Header (header_at 0 (truncated 7)) = Library"
  "Recognize_Data_Header (header_at 3 (truncated 7)) = Member"
  "Recognize_Data_Header (header_at 4 (truncated 7)) = Descriptor"
  "Recognize_Data_Header (header_at 7 (truncated 7)) = Sig_None"
  by (simp_all add: truncated_header_at) (simp_all add: sample_blocks_def)

lemma truncated_10:
  "Recognize_Data_Header (header_at 0 (truncated 10)) = Library"
  "Recognize_Data_Header (header_at 3 (truncated 10)) = Member"
  "Recognize_Data_Header (header_at 4 (truncated 10)) = Descriptor"
  "Recognize_Data_Header (header_at 7 (truncated 10)) = Namestr"
  "stoull (num2 (header_at 7 (truncated 10))) = Inr 1"
  by (simp_all add: truncated_header_at) (simp_all add: sample_blocks_def num2_header_block stoull_1)

lemma truncated_stream [simp]:
  "\<not> failed (mFile (truncated k))" "gpos (mFile (truncated k)) = 0"
  "requests (mFile (truncated k)) = []"
  by (simp_all add: truncated_def)

theorem Read_Headers_missing_header_witness:
  "stops_after False (truncated 0) No_Library_Header (replicate 1 (Req_read 80)) 80
   \<and> stops_after False (truncated 3) No_Member_Header (replicate 4 (Req_read 80)) 320
   \<and> stops_after False (truncated 4) No_Descriptor_Header (replicate 5 (Req_read 80)) 400
   \<and> stops_after False (truncated 7) No_Namestr_Header (replicate 8 (Req_read 80)) 640
   \<and> stops_after False (truncated 10) No_Observation_Header
        (replicate 8 (Req_read 80) @ [Req_read 80, Req_read 60, Req_seekg 20, Req_read 80]) 880"
proof (intro conjI)
  show "stops_after False (truncated 0) No_Library_Header (replicate 1 (Req_read 80)) 80"
    using Read_Headers_missing_header [of "truncated 0" False]
    by (simp add: truncated_length truncated_0)
  show "stops_after False (truncated 3) No_Member_Header (replicate 4 (Req_read 80)) 320"
    using Read_Headers_missing_header [of "truncated 3" False]
    by (simp add: truncated_length truncated_3)
  show "stops_after False (truncated 4) No_Descriptor_Header (replicate 5 (Req_read 80)) 400"
    using Read_Headers_missing_header [of "truncated 4" False]
    by (simp add: truncated_length truncated_4)
  show "stops_after False (truncated 7) No_Namestr_Header (replicate 8 (Req_read 80)) 640"
    using Read_Headers_missing_header [of "truncated 7" False]
    by (simp add: truncated_length truncated_7)
  show "stops_after False (truncated 10) No_Observation_Header
        (replicate 8 (Req_read 80) @ [Req_read 80, Req_read 60, Req_seekg 20, Req_read 80]) 880"
    using Read_Headers_missing_header [of "truncated 10" False 1]
    by (simp add: truncated_length truncated_10 truncated_observation padding_140)
qed

section \<open>Sub-records and alignment\<close>

lemma Read_Headers_Ok:
  assumes nf: "\<not> failed (mFile fl)"
    and res: "fst (Read_Headers b fl) = Inr Ok \<or> fst (Read_Headers b fl) = Inr No_Observation_Header"
  shows "\<exists>cnt. stoull (num2 (header_at 7 fl)) = Inr cnt
    \<and> gpos (mFile fl) + 640 + 140 * cnt \<le> length (content (mFile fl))
    \<and> Recognize_Data_Header (header_at 0 fl) = Library
    \<and> Recognize_Data_Header (header_at 3 fl) = Member
    \<and> Recognize_Data_Header (header_at 4 fl) = Descriptor
    \<and> Recognize_Data_Header (header_at 7 fl) = Namestr
    \<and> snd (Read_Headers b fl) = consumed 80 (before_observation b cnt fl)"
proof -
  obtain cnt where cnt: "stoull (num2 (header_at 7 fl)) = Inr cnt"
    and len: "gpos (mFile fl) + 640 + 140 * cnt \<le> length (content (mFile fl))"
    and sig: "Recognize_Data_Header (header_at 0 fl) = Library"
      "Recognize_Data_Header (header_at 3 fl) = Member"
      "Recognize_Data_Header (header_at 4 fl) = Descriptor"
      "Recognize_Data_Header (header_at 7 fl) = Namestr"
    using Read_Headers_reached [OF nf res] by blast
  have "snd (Read_Headers b fl) = consumed 80 (before_observation b cnt fl)"
    using res unfolding Read_Headers_tail [OF nf len sig cnt]
    by (simp add: Let_def split: if_splits)
  then show ?thesis using cnt len sig by blast
qed

lemma with_content_simps [simp]:
  "gpos (mFile (with_content c fl)) = gpos (mFile fl)"
  "failed (mFile (with_content c fl)) = failed (mFile fl)"
  "content (mFile (with_content c fl)) = c"
  "requests (mFile (with_content c fl)) = requests (mFile fl)"
  "mVariables (with_content c fl) = mVariables fl"
  "mRecord_Len (with_content c fl) = mRecord_Len fl"
  by (simp_all add: with_content_def)

lemma field_same_outside:
  assumes "same_outside S c c'" and "\<forall>q. p \<le> q \<and> q < p + n \<longrightarrow> q \<notin> S"
  shows "field p n c' = field p n c"
proof (rule nth_equalityI)
  show "length (field p n c') = length (field p n c)"
    using assms(1) by (simp add: field_def same_outside_def)
next
  fix i assume "i < length (field p n c')"
  then have "i < n \<and> i < length c - p"
    using assms(1) by (simp add: field_def same_outside_def)
  then have i: "i < n" "p + i < length c"
    by linarith+
  then have "p + i \<notin> S" using assms(2) by simp
  then have "c' ! (p + i) = c ! (p + i)"
    using assms(1) i(2) by (simp add: same_outside_def)
  then show "field p n c' ! i = field p n c ! i"
    using i assms(1) by (simp add: field_def same_outside_def)
qed

lemma header_at_same:
  assumes "same_outside (sub_record_positions fl) (content (mFile fl)) c'"
    and "k = 0 \<or> k = 3 \<or> k = 4 \<or> k = 7"
  shows "header_at k (with_content c' fl) = header_at k fl"
proof -
  have "\<forall>q. gpos (mFile fl) + 80 * k \<le> q \<and> q < gpos (mFile fl) + 80 * k + 80
      \<longrightarrow> q \<notin> sub_record_positions fl"
    using assms(2) by (auto simp add: sub_record_positions_def)
  from field_same_outside [OF assms(1) this] show ?thesis
    by (simp add: header_at_def)
qed

lemma Read_Headers_same_outside:
  assumes nf: "\<not> failed (mFile fl)" and ok: "fst (Read_Headers b fl) = Inr Ok"
    and same: "same_outside (sub_record_positions fl) (content (mFile fl)) c'"
  shows "fst (Read_Headers b (with_content c' fl)) = Inr Ok"
proof -
  let ?fl' = "with_content c' fl"
  obtain cnt where cnt: "stoull (num2 (header_at 7 fl)) = Inr cnt"
    and len: "gpos (mFile fl) + 640 + 140 * cnt \<le> length (content (mFile fl))"
    and sig: "Recognize_Data_Header (header_at 0 fl) = Library"
      "Recognize_Data_Header (header_at 3 fl) = Member"
      "Recognize_Data_Header (header_at 4 fl) = Descriptor"
      "Recognize_Data_Header (header_at 7 fl) = Namestr"
    using Read_Headers_Ok [OF nf, of b] ok by blast
  let ?p = "gpos (mFile fl) + 640 + 140 * cnt + padding ((140 * cnt) mod 18446744073709551616)"
  have obs: "?p + 80 \<le> length (content (mFile fl))"
    "Recognize_Data_Header (field ?p 80 (content (mFile fl))) = Observation"
    using ok unfolding Read_Headers_tail [OF nf len sig cnt]
    by (simp_all add: Let_def before_observation_simps split: if_splits)
  have l: "length c' = length (content (mFile fl))"
    using same by (simp add: same_outside_def)
  have nf': "\<not> failed (mFile ?fl')" using nf by simp
  have len': "gpos (mFile ?fl') + 640 + 140 * cnt \<le> length (content (mFile ?fl'))"
    using len l by simp
  have sig': "Recognize_Data_Header (header_at 0 ?fl') = Library"
      "Recognize_Data_Header (header_at 3 ?fl') = Member"
      "Recognize_Data_Header (header_at 4 ?fl') = Descriptor"
      "Recognize_Data_Header (header_at 7 ?fl') = Namestr"
    using sig by (simp_all add: header_at_same [OF same])
  have cnt': "stoull (num2 (header_at 7 ?fl')) = Inr cnt"
    using cnt by (simp add: header_at_same [OF same])
  have "\<forall>q. ?p \<le> q \<and> q < ?p + 80 \<longrightarrow> q \<notin> sub_record_positions fl"
    by (auto simp add: sub_record_positions_def)
  from field_same_outside [OF same this]
  have obs': "field ?p 80 c' = field ?p 80 (content (mFile fl))" .
  show ?thesis
    unfolding Read_Headers_tail [OF nf' len' sig' cnt']
    using obs l by (simp add: Let_def before_observation_simps obs')
qed

text \<open>
  Claim C7, amended. In a successful run the first eight requests are reads of 80 bytes;
  the Library header is the first block, the Member header the fourth, the Descriptor
  header the fifth and the Namestr header the eighth. Two blocks are read between the
  Library and the Member check, and two between the Descriptor and the Namestr check, and
  the run succeeds whatever these four blocks hold.
\<close>

theorem Read_Headers_sub_records:
  assumes "\<not> failed (mFile fl)" and "fst (Read_Headers b fl) = Inr Ok"
  shows "take 8 (drop (length (requests (mFile fl))) (requests (mFile (snd (Read_Headers b fl)))))
      = replicate 8 (Req_read 80)
    \<and> Recognize_Data_Header (header_at 0 fl) = Library
    \<and> Recognize_Data_Header (header_at 3 fl) = Member
    \<and> Recognize_Data_Header (header_at 4 fl) = Descriptor
    \<and> Recognize_Data_Header (header_at 7 fl) = Namestr
    \<and> (\<forall>c'. same_outside (sub_record_positions fl) (content (mFile fl)) c' \<longrightarrow>
          fst (Read_Headers b (with_content c' fl)) = Inr Ok)"
proof -
  obtain cnt where "Recognize_Data_Header (header_at 0 fl) = Library"
      "Recognize_Data_Header (header_at 3 fl) = Member"
      "Recognize_Data_Header (header_at 4 fl) = Descriptor"
      "Recognize_Data_Header (header_at 7 fl) = Namestr"
      "snd (Read_Headers b fl) = consumed 80 (before_observation b cnt fl)"
    using Read_Headers_Ok [OF assms(1), of b] assms(2) by blast
  then show ?thesis
    using Read_Headers_same_outside [OF assms]
    by (simp add: before_observation_simps)
qed

lemma padding_aligns_raw: "((t::nat) + (80 - t mod 80)) mod 80 = 0"
proof -
  define q where "q = t div 80"
  define r where "r = t mod 80"
  have t: "t = 80 * q + r" unfolding q_def r_def by simp
  have r: "r < 80" unfolding r_def by simp
  have "80 * q + r + (80 - r) = 80 * (q + 1)" using r by simp
  then have "(80 * q + r + (80 - r)) mod 80 = 0" by simp
  then show ?thesis unfolding r_def [symmetric] t [symmetric] .
qed

lemma padding_aligns: "(t + padding t) mod 80 = 0"
  using padding_aligns_raw [of t] by (simp add: padding_cases)

lemma padding_aligns_640: "(640 + t + padding t) mod 80 = 0"
proof -
  have "(640 + (t + padding t)) mod 80 = (640 mod 80 + (t + padding t) mod 80) mod 80"
    by (rule mod_add_eq [symmetric])
  then show ?thesis by (simp add: padding_aligns add.assoc)
qed

text \<open>
  Claim C8. When the run reaches the read of the Observation header, \<open>cnt\<close> descriptor
  pairs of 140 bytes have been read without padding, the cursor has then been moved by
  \<open>(80 - (140 * cnt) mod 80) mod 80\<close> bytes, and the last read starts right there, at a
  multiple of 80 bytes from the start of the headers.
\<close>

theorem Read_Headers_alignment:
  assumes "\<not> failed (mFile fl)" and "length (content (mFile fl)) < 2 ^ 64"
    and "fst (Read_Headers b fl) = Inr Ok \<or> fst (Read_Headers b fl) = Inr No_Observation_Header"
    and "stoull (num2 (header_at 7 fl)) = Inr cnt"
  shows "requests (mFile (snd (Read_Headers b fl)))
      = requests (mFile fl) @ replicate 8 (Req_read 80)
        @ concat (replicate cnt [Req_read 80, Req_read 60])
        @ (if padding (140 * cnt) = 0 then [] else [Req_seekg (padding (140 * cnt))])
        @ [Req_read 80]
    \<and> gpos (mFile (snd (Read_Headers b fl)))
      = gpos (mFile fl) + 640 + 140 * cnt + padding (140 * cnt) + 80
    \<and> padding (140 * cnt) = (80 - (140 * cnt) mod 80) mod 80
    \<and> (640 + 140 * cnt + padding (140 * cnt)) mod 80 = 0"
proof -
  obtain cnt' where cnt': "stoull (num2 (header_at 7 fl)) = Inr cnt'"
    and len: "gpos (mFile fl) + 640 + 140 * cnt' \<le> length (content (mFile fl))"
    and s: "snd (Read_Headers b fl) = consumed 80 (before_observation b cnt' fl)"
    using Read_Headers_Ok [OF assms(1,3)] by blast
  have [simp]: "cnt' = cnt" using cnt' assms(4) by simp
  have m: "(140 * cnt) mod 18446744073709551616 = 140 * cnt"
    using small_total [OF len [simplified] assms(2)] .
  have al: "(640 + 140 * cnt + padding (140 * cnt)) mod 80 = 0"
    by (rule padding_aligns_640)
  have rq: "requests (mFile (snd (Read_Headers b fl)))
      = requests (mFile fl) @ replicate 8 (Req_read 80)
        @ concat (replicate cnt [Req_read 80, Req_read 60])
        @ (if padding (140 * cnt) = 0 then [] else [Req_seekg (padding (140 * cnt))])
        @ [Req_read 80]"
    by (simp add: s before_observation_simps m)
  have gp: "gpos (mFile (snd (Read_Headers b fl)))
      = gpos (mFile fl) + 640 + 140 * cnt + padding (140 * cnt) + 80"
    by (simp add: s before_observation_simps m)
  show ?thesis
    using al rq gp padding_def [of "140 * cnt"] by blast
qed


lemma sample_file_stream [simp]:
  "\<not> failed (mFile sample_file)" "gpos (mFile sample_file) = 0"
  "requests (mFile sample_file) = []" "mVariables sample_file = []"
  "content (mFile sample_file) = concat sample_blocks"
  by (simp_all add: sample_file_def)

lemma sample_file_length: "length (concat sample_blocks) = 960"
  using length_concat_blocks [OF sample_blocks_80] by (simp add: length_sample_blocks)

lemma sample_block_at:
  "k < 11 \<Longrightarrow> field (80 * k) 80 (concat sample_blocks) = sample_blocks ! k"
  using field_concat_blocks [OF sample_blocks_80, of k] by (simp add: length_sample_blocks)

lemma sample_observation:
  "Recognize_Data_Header (observation_header_at (Suc 0) sample_file) = Observation"
  using sample_block_at [of 10]
  by (simp add: observation_header_at_def padding_140 sample_blocks_def)

lemma field_60_of_80: "field p 60 c = take 60 (field p 80 c)"
  by (simp add: field_def)

lemma sample_variable:
  "make_Variable_Record b namestr1_block (take 60 namestr2_block)
    = \<lparr>var_name = ''X'', var_label = [], var_type = Numeric, var_length = 8, varNum = 1,
       var_position = 100\<rparr>"
  by (simp add: make_Variable_Record_def big_endian_input namestr1_block_def namestr2_block_def
      nname_def nlabel_def ntype_def nlng_def nvar0_def npos_def field_def Char_To_String_def
      isspace_def NVar_Type_of_def int32_to_size_t_def Let_def)

lemma sample_descriptors:
  "descriptors b (concat sample_blocks) 640 (Suc 0)
    = [\<lparr>var_name = ''X'', var_label = [], var_type = Numeric, var_length = 8, varNum = 1,
        var_position = 100\<rparr>]"
proof -
  have 1: "field 640 80 (concat sample_blocks) = namestr1_block"
    using sample_block_at [of 8] by (simp add: sample_blocks_def)
  have 2: "field 720 80 (concat sample_blocks) = namestr2_block"
    using sample_block_at [of 9] by (simp add: sample_blocks_def)
  show ?thesis
    by (simp add: descriptors_def 1 field_60_of_80 [of 720] 2 sample_variable)
qed

lemma sample_Read_Headers:
  "Read_Headers b sample_file
    = (Inr Ok, consumed 80 (before_observation b (Suc 0) sample_file))"
proof -
  have "Read_Headers b sample_file =
    (Inr (if Recognize_Data_Header (observation_header_at (Suc 0) sample_file) = Observation
          then Ok else No_Observation_Header),
     consumed 80 (before_observation b (Suc 0) sample_file))"
    by (rule stage_observation)
      (simp_all add: sample_file_length padding_140 sample_headers [folded sample_file_def])
  then show ?thesis by (simp add: sample_observation)
qed

text \<open>
  Claim C7 as stated fails on the sample file: the run succeeds, its first four requests
  are reads of 80 bytes, the third block is not the Member header and the fourth is; so
  two blocks, not one, lie between the Library header and the Member header.
\<close>

theorem Read_Headers_one_sub_record_counterexample:
  "fst (Read_Headers False sample_file) = Inr Ok
   \<and> take 4 (requests (mFile (snd (Read_Headers False sample_file)))) = replicate 4 (Req_read 80)
   \<and> Recognize_Data_Header (header_at 0 sample_file) = Library
   \<and> Recognize_Data_Header (header_at 2 sample_file) \<noteq> Member
   \<and> Recognize_Data_Header (header_at 3 sample_file) = Member"
  by (simp add: sample_Read_Headers before_observation_simps sample_headers [folded sample_file_def])

theorem Read_Headers_sub_records_witness:
  "take 8 (drop (length (requests (mFile sample_file)))
      (requests (mFile (snd (Read_Headers False sample_file)))))
      = replicate 8 (Req_read 80)
    \<and> Recognize_Data_Header (header_at 0 sample_file) = Library
    \<and> Recognize_Data_Header (header_at 3 sample_file) = Member
    \<and> Recognize_Data_Header (header_at 4 sample_file) = Descriptor
    \<and> Recognize_Data_Header (header_at 7 sample_file) = Namestr
    \<and> same_outside (sub_record_positions sample_file) (content (mFile sample_file))
         (content (mFile sample_file))
    \<and> fst (Read_Headers False (with_content (content (mFile sample_file)) sample_file)) = Inr Ok"
proof -
  have h: "\<not> failed (mFile sample_file)" "fst (Read_Headers False sample_file) = Inr Ok"
    by (simp_all add: sample_Read_Headers)
  have s: "same_outside (sub_record_positions sample_file) (content (mFile sample_file))
         (content (mFile sample_file))"
    by (simp add: same_outside_def)
  show ?thesis
    using s Read_Headers_sub_records [OF h] by blast
qed

theorem Read_Headers_alignment_witness:
  "requests (mFile (snd (Read_Headers False sample_file)))
      = replicate 8 (Req_read 80) @ [Req_read 80, Req_read 60, Req_seekg 20, Req_read 80]
    \<and> gpos (mFile (snd (Read_Headers False sample_file))) = 880
    \<and> padding 140 = 20"
  using Read_Headers_alignment [of sample_file False 1]
  by (simp add: sample_Read_Headers sample_file_length sample_headers [folded sample_file_def] padding_140)

section \<open>Reading rows\<close>

lemma Read_vec_eq:
  "Read_vec n fl =
    (if n \<le> available (mFile fl)
     then (Inr (field (gpos (mFile fl)) n (content (mFile fl))), short_read n fl)
     else (Inl CEOF_Exception, short_read n fl))"
  by (auto simp add: Read_vec_def ifstream_read_def short_read_def available_def field_def
      Let_def min_def)

lemma Get_From_Buffer_uint64_eq:
  "Get_From_Buffer_uint64 buf off =
    (if off + 8 \<le> length buf then Inr (field off 8 buf) else Inl Buffer_Overrun)"
  by (simp add: Get_From_Buffer_uint64_def field_def)

lemma Get_From_Buffer_eq:
  "Get_From_Buffer buf off len =
    (if off + len \<le> length buf then Inr (trim_cell (field off len buf)) else Inl Buffer_Overrun)"
  by (simp add: Get_From_Buffer_def field_def trim_cell_def Let_def)

lemma Read_Next_loop_Inr:
  assumes "Read_Next_loop b vs data i target = Inr target'" and "i + length vs \<le> length target"
  shows "length target' = length target \<and> (\<forall>k < i. target' ! k = target ! k)
    \<and> (\<forall>j < length vs. decoded_cell b data (vs ! j) (target' ! (i + j)))"
  using assms
proof (induction vs arbitrary: i target)
  case Nil
  then show ?case by simp
next
  case (Cons mvar rest)
  obtain target1 where rec: "Read_Next_loop b rest data (Suc i) target1 = Inr target'"
    and len1: "length target1 = length target"
    and old: "\<forall>k < i. target1 ! k = target ! k"
    and new: "decoded_cell b data mvar (target1 ! i)"
    using Cons.prems
    by (auto simp add: Get_From_Buffer_uint64_eq Get_From_Buffer_eq decoded_cell_def
        split: if_splits)
  have "Suc i + length rest \<le> length target1"
    using Cons.prems(2) len1 by simp
  from Cons.IH [OF rec this]
  have IH: "length target' = length target1" "\<forall>k < Suc i. target' ! k = target1 ! k"
    "\<forall>j < length rest. decoded_cell b data (rest ! j) (target' ! (Suc i + j))"
    by blast+
  have "decoded_cell b data ((mvar # rest) ! j) (target' ! (i + j))" if "j < length (mvar # rest)" for j
  proof (cases j)
    case 0
    then show ?thesis using IH(2) new by simp
  next
    case (Suc j')
    then show ?thesis using IH(3) that by simp
  qed
  then show ?case using IH(1,2) len1 old by simp
qed

lemma Read_Next_loop_Inl:
  "(\<exists>e. Read_Next_loop b vs data i target = Inl e)
    \<longleftrightarrow> (\<exists>v \<in> set vs. overruns data v)"
  by (induction vs arbitrary: i target)
    (auto simp add: Get_From_Buffer_uint64_eq Get_From_Buffer_eq overruns_def)

lemma Read_Next_loop_error:
  "Read_Next_loop b vs data i target = Inl e \<Longrightarrow> e = Buffer_Overrun"
  by (induction vs arbitrary: i target)
    (auto simp add: Get_From_Buffer_uint64_eq Get_From_Buffer_eq split: if_splits)

lemma length_field: "length (field p n c) = min n (length c - p)"
  by (simp add: field_def)

lemma length_row_buffer:
  "mRecord_Len fl \<le> available (mFile fl) \<Longrightarrow> length (row_buffer fl) = mRecord_Len fl"
  by (simp add: row_buffer_def length_field available_def split: if_splits)

lemma short_read_simps [simp]:
  "mVariables (short_read n fl) = mVariables fl"
  "mRecord_Len (short_read n fl) = mRecord_Len fl"
  by (simp_all add: short_read_def)

lemma Read_Next_eq:
  "Read_Next b target fl =
    (let target1 = resize (length (mVariables fl)) (TString []) target in
     if mRecord_Len fl \<le> available (mFile fl) then
       (case Read_Next_loop b (mVariables fl) (row_buffer fl) 0 target1 of
          Inl e \<Rightarrow> (Inl e, target1, short_read (mRecord_Len fl) fl)
        | Inr target' \<Rightarrow> (Inr True, target', short_read (mRecord_Len fl) fl))
     else (Inr False, target1, short_read (mRecord_Len fl) fl))"
  by (simp add: Read_Next_def Read_vec_eq row_buffer_def Let_def)

lemma length_resize [simp]: "length (resize n d xs) = n"
  by (simp add: resize_def)


lemma Fetch_Column_fetch_from:
  "length args \<le> N \<Longrightarrow>
    Fetch_Column b stod ts vars data N args = fetch_from b stod ts vars data (N - length args) args"
proof (induction b stod ts vars data N args rule: Fetch_Column.induct)
  case (1 b stod ts vars data N)
  then show ?case by simp
next
  case (2 b stod ts vars data N arg)
  then show ?case by (simp split: sum.splits)
next
  case (3 b stod ts vars data N arg v va)
  have "Suc (N - Suc (Suc (length va))) = N - Suc (length va)"
    using "3.prems" by simp
  then show ?case
    using 3 by (simp add: Let_def case_prod_beta split: sum.splits)
qed

lemma length_fetch_from [simp]:
  "length (snd (fetch_from b stod ts vars data i args)) = length args"
  by (induction args arbitrary: i) (simp_all split: sum.splits)

lemma fetch_from_nth:
  assumes "k < length args"
    and "\<forall>j < k. \<exists>a. Fetch_Column_Idx b stod ts vars data (i + j) (args ! j) = Inr a"
  shows "case Fetch_Column_Idx b stod ts vars data (i + k) (args ! k) of
           Inl e \<Rightarrow> fst (fetch_from b stod ts vars data i args) = Some e
                    \<and> snd (fetch_from b stod ts vars data i args) ! k = args ! k
         | Inr a \<Rightarrow> snd (fetch_from b stod ts vars data i args) ! k = a"
  using assms
proof (induction args arbitrary: i k)
  case Nil
  then show ?case by simp
next
  case (Cons arg args)
  show ?case
  proof (cases k)
    case 0
    then show ?thesis by (simp split: sum.splits)
  next
    case (Suc k')
    obtain a where a: "Fetch_Column_Idx b stod ts vars data i arg = Inr a"
      using Cons.prems(2) Suc by fastforce
    have 1: "k' < length args" using Cons.prems(1) Suc by simp
    have 2: "\<forall>j < k'. \<exists>a. Fetch_Column_Idx b stod ts vars data (Suc i + j) (args ! j) = Inr a"
    proof (intro allI impI)
      fix j assume "j < k'"
      then have "Suc j < k" using Suc by simp
      then show "\<exists>a. Fetch_Column_Idx b stod ts vars data (Suc i + j) (args ! j) = Inr a"
        using Cons.prems(2) [rule_format, of "Suc j"] by simp
    qed
    from Cons.IH [OF 1 2] show ?thesis
      using Suc a by (simp split: sum.splits)
  qed
qed

lemma Fetch_Column_Idx_overrun:
  "Fetch_Column_Idx b stod ts vars data j arg = Inl Vector_Index_Overrun \<longleftrightarrow> length vars \<le> j"
  by (auto simp add: Fetch_Column_Idx_def Get_From_Buffer_uint64_eq Get_From_Buffer_eq Let_def
      split: Arg.splits stod_result.splits if_splits)

lemma Fetch_Column_Idx_not_eof:
  "Fetch_Column_Idx b stod ts vars data j arg \<noteq> Inl CEOF_Exception"
  by (auto simp add: Fetch_Column_Idx_def Get_From_Buffer_uint64_eq Get_From_Buffer_eq Let_def
      split: Arg.splits stod_result.splits if_splits)

lemma fetch_from_not_eof:
  "fst (fetch_from b stod ts vars data i args) \<noteq> Some CEOF_Exception"
  using Fetch_Column_Idx_not_eof
  by (induction args arbitrary: i) (auto split: sum.splits)

lemma fetch_from_overrun:
  "fst (fetch_from b stod ts vars data i args) = Some Vector_Index_Overrun
    \<Longrightarrow> length vars < i + length args"
proof (induction args arbitrary: i)
  case Nil
  then show ?case by simp
next
  case (Cons arg args)
  show ?case
  proof (cases "Fetch_Column_Idx b stod ts vars data i arg")
    case (Inl e)
    then have "e = Vector_Index_Overrun" using Cons.prems by simp
    then have "length vars \<le> i" using Inl Fetch_Column_Idx_overrun by blast
    then show ?thesis by simp
  next
    case (Inr a)
    then have "fst (fetch_from b stod ts vars data (Suc i) args) = Some Vector_Index_Overrun"
      using Cons.prems by simp
    from Cons.IH [OF this] show ?thesis by simp
  qed
qed

lemma Read_Next_args_eq:
  "Read_Next_args b stod ts args fl =
    (if mRecord_Len fl \<le> available (mFile fl) then
       (case fetch_from b stod ts (mVariables fl) (row_buffer fl) 0 args of
          (Some e, args') \<Rightarrow> (Inl e, args', short_read (mRecord_Len fl) fl)
        | (None, args') \<Rightarrow> (Inr True, args', short_read (mRecord_Len fl) fl))
     else (Inr False, args, short_read (mRecord_Len fl) fl))"
  by (simp add: Read_Next_args_def Read_vec_eq row_buffer_def Let_def Fetch_Column_fetch_from)


text \<open>
  Claim C4 as stated fails: with three bytes left of a row of eight, \<open>Read_Next\<close> consumes
  the three bytes and returns \<open>false\<close>, the value it returns at a row boundary.
\<close>

theorem Read_Next_truncated_row_counterexample:
  "available (mFile short_row_file) = 3 \<and> mRecord_Len short_row_file = 8
   \<and> fst (Read_Next False [] short_row_file) = Inr False
   \<and> gpos (mFile (snd (snd (Read_Next False [] short_row_file)))) = 3"
  by (simp add: Read_Next_eq short_row_file_def available_def short_read_def ifstream_read_def
      Let_def)

text \<open>
  Claim C4, amended. Both forms of \<open>Read_Next\<close> return \<open>false\<close> exactly when the stream
  cannot supply the \<open>mRecord_Len\<close> bytes of the next row, whether no byte or only a part of
  the row is left; a short read is never reported as a failure.
\<close>

theorem Read_Next_end_of_data:
  "(fst (Read_Next b target fl) = Inr False \<longleftrightarrow> available (mFile fl) < mRecord_Len fl)
   \<and> (fst (Read_Next_args b stod ts args fl) = Inr False
        \<longleftrightarrow> available (mFile fl) < mRecord_Len fl)
   \<and> fst (Read_Next b target fl) \<noteq> Inl CEOF_Exception
   \<and> fst (Read_Next_args b stod ts args fl) \<noteq> Inl CEOF_Exception"
proof (intro conjI)
  show "fst (Read_Next b target fl) = Inr False \<longleftrightarrow> available (mFile fl) < mRecord_Len fl"
    by (auto simp add: Read_Next_eq Let_def split: sum.splits)
  show "fst (Read_Next_args b stod ts args fl) = Inr False
        \<longleftrightarrow> available (mFile fl) < mRecord_Len fl"
    by (auto simp add: Read_Next_args_eq split: prod.splits option.splits)
  show "fst (Read_Next b target fl) \<noteq> Inl CEOF_Exception"
    using Read_Next_loop_error [of b "mVariables fl" "row_buffer fl" 0]
    by (auto simp add: Read_Next_eq Let_def split: sum.splits)
  show "fst (Read_Next_args b stod ts args fl) \<noteq> Inl CEOF_Exception"
    using fetch_from_not_eof [of b stod ts "mVariables fl" "row_buffer fl" 0 args]
    by (auto simp add: Read_Next_args_eq split: prod.splits option.splits)
qed

theorem Read_Next_end_of_data_witness:
  "fst (Read_Next False [] short_row_file) = Inr False
   \<and> fst (Read_Next_args False sample_stod sample_to_string [Arg_double 0] short_row_file) = Inr False"
  using Read_Next_end_of_data [of False "[]" short_row_file sample_stod sample_to_string "[Arg_double 0]"]
  by (simp add: short_row_file_def available_def)

text \<open>
  Claim C5 as stated fails on a cell that ends in a NUL byte: the code removes it, and
  trimming white space alone does not.
\<close>

theorem Read_Next_nul_cell_counterexample:
  "fst (Read_Next False [] nul_session) = Inr True
   \<and> var_type (mVariables nul_session ! 0) = String
   \<and> fst (snd (Read_Next False [] nul_session)) ! 0 = TString ''A''
   \<and> trim_whitespace (field (var_position (mVariables nul_session ! 0))
         (var_length (mVariables nul_session ! 0)) (row_buffer nul_session)) = [CHR ''A'', CHR 0x00]"
  by (simp add: Read_Next_eq nul_session_def available_def row_buffer_def field_def resize_def
      Get_From_Buffer_def trim_whitespace_def isspace_def Let_def)

text \<open>
  Claim C5, amended. A positional \<open>Read_Next\<close> that returns \<open>true\<close> yields one value per
  variable, in the order of the table: for a Numeric variable the codec applied to the
  eight bytes at its offset in the row buffer, for a String variable the bytes of its
  length at its offset, without leading white space and without trailing white space and
  NUL bytes.
\<close>

theorem Read_Next_row:
  assumes "Read_Next b target fl = (Inr True, target', fl')"
  shows "length target' = length (mVariables fl)
    \<and> (\<forall>i < length (mVariables fl).
         (var_type (mVariables fl ! i) = Numeric \<longrightarrow>
            target' ! i = TDouble (IbmToIEEE b (field (var_position (mVariables fl ! i)) 8 (row_buffer fl))))
       \<and> (var_type (mVariables fl ! i) = String \<longrightarrow>
            target' ! i = TString (trim_cell (field (var_position (mVariables fl ! i))
                                     (var_length (mVariables fl ! i)) (row_buffer fl)))))"
proof -
  let ?t = "resize (length (mVariables fl)) (TString []) target"
  have loop: "Read_Next_loop b (mVariables fl) (row_buffer fl) 0 ?t = Inr target'"
    using assms by (simp add: Read_Next_eq Let_def split: if_splits sum.splits)
  have "0 + length (mVariables fl) \<le> length ?t" by simp
  from Read_Next_loop_Inr [OF loop this]
  have len: "length target' = length ?t"
    and cells: "\<forall>j < length (mVariables fl). decoded_cell b (row_buffer fl) (mVariables fl ! j) (target' ! (0 + j))"
    by blast+
  show ?thesis
    using len cells by (simp add: decoded_cell_def)
qed

lemma IbmToIEEE_ibm_one: "IbmToIEEE b ibm_one = 0x3FF0000000000000"
  unfolding IbmToIEEE_def big_endian_input be_word_def [symmetric] be_word_ibm_one
  by (simp add: Let_def)

lemma session_cells:
  "field 0 8 session_bytes = ibm_one"
  "trim_cell (field 8 7 session_bytes) = ''42.5''"
  "trim_cell (field 15 3 session_bytes) = ''abc''"
  "length session_bytes = 18"
  by (simp_all add: session_bytes_def field_def ibm_one_def trim_cell_def isspace_def)

lemma session_row: "row_buffer session = session_bytes"
  by (simp add: row_buffer_def session_def field_def session_cells)

lemma session_simps:
  "mVariables session =
       [\<lparr>var_name = ''N'', var_label = [], var_type = Numeric, var_length = 8,
         varNum = 1, var_position = 0\<rparr>,
        \<lparr>var_name = ''S'', var_label = [], var_type = String, var_length = 7,
         varNum = 2, var_position = 8\<rparr>,
        \<lparr>var_name = ''T'', var_label = [], var_type = String, var_length = 3,
         varNum = 3, var_position = 15\<rparr>]"
  "mRecord_Len session = 18"
  "available (mFile session) = 18"
  by (simp_all add: session_def available_def session_cells)

lemma resize_3: "resize (Suc (Suc (Suc 0))) d [] = [d, d, d]"
  by (simp add: resize_def)

lemma session_Read_Next:
  "Read_Next False [] session
    = (Inr True, [TDouble 0x3FF0000000000000, TString ''42.5'', TString ''abc''],
       short_read 18 session)"
  unfolding Read_Next_eq session_row session_simps
  by (simp add: resize_3 Get_From_Buffer_uint64_eq Get_From_Buffer_eq
      session_cells IbmToIEEE_ibm_one)

theorem Read_Next_row_witness:
  "Read_Next False [] session
     = (Inr True, [TDouble 0x3FF0000000000000, TString ''42.5'', TString ''abc''],
        short_read 18 session)
   \<and> length [TDouble 0x3FF0000000000000, TString ''42.5'', TString ''abc'']
       = length (mVariables session)
   \<and> [TDouble 0x3FF0000000000000, TString ''42.5'', TString ''abc''] ! 1
       = TString (trim_cell (field (var_position (mVariables session ! 1))
                    (var_length (mVariables session ! 1)) (row_buffer session)))"
proof -
  have h: "Read_Next False [] session
     = (Inr True, [TDouble 0x3FF0000000000000, TString ''42.5'', TString ''abc''],
        short_read 18 session)"
    by (rule session_Read_Next)
  have 1: "(1::nat) < length (mVariables session)" "var_type (mVariables session ! 1) = String"
    by (simp_all add: session_simps)
  show ?thesis
    using h 1 Read_Next_row [OF h] by blast
qed

section \<open>The library function \<open>std::stod\<close>: what it computes\<close>

declare bitlen.simps [simp del]

lemma bitlen_0 [simp]: "bitlen 0 = 0"
  by (simp add: bitlen.simps)

lemma bitlen_numeral [simp]: "bitlen (numeral k) = Suc (bitlen (numeral k div 2))"
  by (subst bitlen.simps) simp

lemma scan_number_None:
  "scan_number isdigit m u = None \<longleftrightarrow>
     \<not> (u \<noteq> [] \<and> isdigit (hd u))
     \<and> \<not> (u \<noteq> [] \<and> hd u = CHR ''.'' \<and> tl u \<noteq> [] \<and> isdigit (hd (tl u)))"
proof (cases u)
  case Nil
  then show ?thesis by (simp add: scan_number_def)
next
  case (Cons c cs)
  show ?thesis
  proof (cases "isdigit c")
    case True
    then show ?thesis using Cons by (simp add: scan_number_def Let_def split: prod.splits)
  next
    case False
    then show ?thesis using Cons
      by (cases cs) (auto simp add: scan_number_def Let_def split: prod.splits)
  qed
qed

lemma of_char_tolower:
  "(of_char (tolower c) :: nat) =
    (if 65 \<le> (of_char c :: nat) \<and> (of_char c :: nat) \<le> 90 then of_char c + 32 else of_char c)"
  by (simp add: tolower_def)

lemma tolower_zero: "tolower c = CHR ''0'' \<Longrightarrow> c = CHR ''0''"
proof -
  assume a: "tolower c = CHR ''0''"
  have "(of_char (tolower c) :: nat) = 48" unfolding a by simp
  then have "(of_char c :: nat) = 48"
    unfolding of_char_tolower by (simp split: if_splits)
  then have "(of_char c :: nat) = of_char (CHR ''0'')" by simp
  then show ?thesis by (simp only: of_char_eq_iff)
qed

lemma hex_prefix_digit:
  assumes "map tolower (take 2 u) = ''0x''"
  shows "u \<noteq> [] \<and> isdigit (hd u)"
proof (cases u)
  case Nil
  then show ?thesis using assms by simp
next
  case (Cons c cs)
  then have "tolower c = CHR ''0''" using assms by (cases cs) simp_all
  then have "c = CHR ''0''" by (rule tolower_zero)
  then show ?thesis using Cons by (simp add: isdigit_def)
qed

lemma infinity_inf:
  assumes "map tolower (take 8 u) = ''infinity''"
  shows "map tolower (take 3 u) = ''inf''"
proof -
  have "take 3 (map tolower (take 8 u)) = ''inf''" using assms by simp
  then show ?thesis by (simp add: take_map)
qed

lemma subject_choice_None:
  "(if A8 then Some x1 else if A3 then Some x2
    else if N3 then (case nc of Some (sq, r) \<Rightarrow> Some (y1 sq r) | None \<Rightarrow> Some y2)
    else if HX then (case sh of Some (ip, fp, e, r) \<Rightarrow> Some (h1 ip fp e r) | None \<Rightarrow> Some h2)
    else (case sd of Some (ip, fp, e, r) \<Rightarrow> Some (d1 ip fp e r) | None \<Rightarrow> None)) = None
   \<longleftrightarrow> \<not> A8 \<and> \<not> A3 \<and> \<not> N3 \<and> \<not> HX \<and> sd = None"
  by (auto split: option.splits)

lemma subject_conditions:
  assumes "P8 \<Longrightarrow> P3" and "H \<Longrightarrow> D"
  shows "(\<not> P8 \<and> \<not> P3 \<and> \<not> N \<and> \<not> H \<and> \<not> D \<and> \<not> DD) = (\<not> (D \<or> DD \<or> P3 \<or> N))"
  using assms by blast

lemma strtod_subject_None: "strtod_subject str = None \<longleftrightarrow> \<not> starts_numeric str"
proof -
  define s where "s = dropWhile isspace (takeWhile (\<lambda>ch. ch \<noteq> CHR 0x00) str)"
  define u where "u = (if s \<noteq> [] \<and> (hd s = CHR ''-'' \<or> hd s = CHR ''+'') then tl s else s)"
  have l: "strtod_subject str = None \<longleftrightarrow>
      map tolower (take 8 u) \<noteq> ''infinity'' \<and> map tolower (take 3 u) \<noteq> ''inf''
      \<and> map tolower (take 3 u) \<noteq> ''nan'' \<and> map tolower (take 2 u) \<noteq> ''0x''
      \<and> scan_number isdigit (CHR ''e'') u = None"
    unfolding strtod_subject_def Let_def s_def [symmetric] u_def [symmetric]
    by (rule subject_choice_None [THEN trans]) simp
  have r: "starts_numeric str \<longleftrightarrow>
      (u \<noteq> [] \<and> isdigit (hd u))
      \<or> (u \<noteq> [] \<and> hd u = CHR ''.'' \<and> tl u \<noteq> [] \<and> isdigit (hd (tl u)))
      \<or> map tolower (take 3 u) = ''inf'' \<or> map tolower (take 3 u) = ''nan''"
    unfolding starts_numeric_def Let_def s_def [symmetric] u_def [symmetric] ..
  show ?thesis
    unfolding l r scan_number_None
    by (rule subject_conditions) (rule infinity_inf hex_prefix_digit, assumption)+
qed

lemma std_stod_invalid: "std_stod str = stod_invalid_argument \<longleftrightarrow> \<not> starts_numeric str"
  unfolding strtod_subject_None [symmetric]
  by (auto simp add: std_stod_def split: option.splits prod.splits)

lemma std_stod_42_5: "std_stod ''42.5'' = stod_value 0x4045400000000000"
proof -
  have 1: "strtod_subject ''42.5'' = Some (False, Decimal ''42'' ''5'' 0, [])"
    by (simp add: strtod_subject_def scan_number_def scan_exponent_def isspace_def isdigit_def
        tolower_def Let_def)
  have 2: "subject_value (Decimal ''42'' ''5'' 0) = Some 4631178160564600832"
    by (simp add: subject_value_def round_to_double_def scaled_def round_half_even_def Let_def)
  show ?thesis by (simp add: std_stod_def 1 2)
qed

lemma std_stod_12abc: "std_stod ''12abc'' = stod_value 0x4028000000000000"
proof -
  have 1: "strtod_subject ''12abc'' = Some (False, Decimal ''12'' [] 0, ''abc'')"
    by (simp add: strtod_subject_def scan_number_def scan_exponent_def isspace_def isdigit_def
        tolower_def Let_def)
  have 2: "subject_value (Decimal ''12'' [] 0) = Some 4622945017495814144"
    by (simp add: subject_value_def round_to_double_def scaled_def round_half_even_def Let_def)
  show ?thesis by (simp add: std_stod_def 1 2)
qed

lemma std_stod_abc: "std_stod ''abc'' = stod_invalid_argument"
proof -
  have "\<not> starts_numeric ''abc''"
    by (simp add: starts_numeric_def isspace_def isdigit_def tolower_def)
  then show ?thesis by (simp add: std_stod_invalid)
qed


lemma bitlen_lower: "2 ^ k \<le> n \<Longrightarrow> k < bitlen n"
proof (induction k arbitrary: n)
  case 0
  then show ?case by (simp add: bitlen.simps [of n])
next
  case (Suc k)
  then have "2 ^ k \<le> n div 2" by simp
  moreover have "0 < (2::nat) ^ Suc k" by simp
  then have "n \<noteq> 0" using Suc.prems by linarith
  ultimately show ?case using Suc.IH [of "n div 2"] by (simp add: bitlen.simps [of n])
qed

lemma round_to_double_overflow:
  assumes "2 ^ 1025 \<le> num"
  shows "round_to_double num 1 = None"
proof -
  have b: "1025 < bitlen num" using bitlen_lower [OF assms] .
  have one: "bitlen (Suc 0) = Suc 0" by (simp add: bitlen.simps [of "Suc 0"])
  have "0 < (2::nat) ^ 1025" by simp
  then have n0: "num \<noteq> 0" using assms by linarith
  define k where "k = int (bitlen num) - int (bitlen 1)"
  have k: "1025 \<le> k" using b by (simp add: k_def one)
  show ?thesis
    unfolding round_to_double_def Let_def k_def [symmetric]
    using n0 k by (simp del: power_numeral)
qed

lemma ten_999: "(2::nat) ^ 1025 \<le> 10 ^ 999"
proof -
  have "(2::nat) ^ 1025 \<le> 2 ^ (3 * 999)" by (rule power_increasing) simp_all
  also have "\<dots> = (2 ^ 3) ^ 999" by (rule power_mult)
  also have "\<dots> \<le> (10::nat) ^ 999" by (rule power_mono) simp_all
  finally show ?thesis .
qed

lemma std_stod_1e999: "std_stod ''1e999'' = stod_out_of_range"
proof -
  have 1: "strtod_subject ''1e999'' = Some (False, Decimal ''1'' [] 999, [])"
    by (simp add: strtod_subject_def scan_number_def scan_exponent_def isspace_def isdigit_def
        tolower_def Let_def)
  have "subject_value (Decimal ''1'' [] 999) = round_to_double (10 ^ 999) 1"
    by (simp add: subject_value_def isdigit_def del: power_numeral)
  then have 2: "subject_value (Decimal ''1'' [] 999) = None"
    by (simp only: round_to_double_overflow [OF ten_999])
  show ?thesis by (simp add: std_stod_def 1 2)
qed

section \<open>Offsets, coercion and slot indices\<close>

lemma Read_Next_overrun:
  assumes "mRecord_Len fl \<le> available (mFile fl)"
  shows "fst (Read_Next b target fl) = Inl Buffer_Overrun
    \<longleftrightarrow> (\<exists>v \<in> set (mVariables fl).
          (var_type v = Numeric \<and> mRecord_Len fl < var_position v + 8)
          \<or> (var_type v = String \<and> mRecord_Len fl < var_position v + var_length v))"
proof -
  let ?t = "resize (length (mVariables fl)) (TString []) target"
  have "fst (Read_Next b target fl) = Inl Buffer_Overrun
    \<longleftrightarrow> (\<exists>e. Read_Next_loop b (mVariables fl) (row_buffer fl) 0 ?t = Inl e)"
    using assms Read_Next_loop_error [of b "mVariables fl" "row_buffer fl" 0 ?t]
    by (auto simp add: Read_Next_eq Let_def split: sum.splits)
  also have "\<dots> \<longleftrightarrow> (\<exists>v \<in> set (mVariables fl). overruns (row_buffer fl) v)"
    by (rule Read_Next_loop_Inl)
  finally show ?thesis
    by (simp add: overruns_def length_row_buffer [OF assms])
qed

lemma short_numeric_blocks_80: "\<forall>x \<in> set short_numeric_blocks. length x = 80"
  by (simp add: short_numeric_blocks_def blank_block_def header_block_def namestr1_short_block_def
      namestr2_zero_block_def data_block_def ibm_one_def Header_Signature_Library_def
      Header_Signature_Member_def Header_Signature_Descriptor_def Header_Signature_Namestr_def
      Header_Signature_Observation_def)

lemma length_short_numeric_blocks: "length short_numeric_blocks = 12"
  by (simp add: short_numeric_blocks_def)

lemma short_numeric_header_at:
  "k < 11 \<Longrightarrow> header_at k (file_of_blocks short_numeric_blocks)
    = take sizeof_Data_Header_Generic (short_numeric_blocks ! k)"
  using header_at_blocks [OF short_numeric_blocks_80, of k]
  by (simp add: length_short_numeric_blocks)

lemma short_numeric_headers:
  "Recognize_Data_Header (header_at 0 (file_of_blocks short_numeric_blocks)) = Library"
  "Recognize_Data_Header (header_at 3 (file_of_blocks short_numeric_blocks)) = Member"
  "Recognize_Data_Header (header_at 4 (file_of_blocks short_numeric_blocks)) = Descriptor"
  "Recognize_Data_Header (header_at 7 (file_of_blocks short_numeric_blocks)) = Namestr"
  "stoull (num2 (header_at 7 (file_of_blocks short_numeric_blocks))) = Inr 1"
  by (simp_all add: short_numeric_header_at)
     (simp_all add: short_numeric_blocks_def num2_header_block stoull_1)

lemma short_numeric_file_stream [simp]:
  "\<not> failed (mFile short_numeric_file)" "gpos (mFile short_numeric_file) = 0"
  "requests (mFile short_numeric_file) = []" "mVariables short_numeric_file = []"
  "content (mFile short_numeric_file) = concat short_numeric_blocks"
  by (simp_all add: short_numeric_file_def file_of_blocks_def)

lemma short_numeric_file_length: "length (concat short_numeric_blocks) = 960"
  using length_concat_blocks [OF short_numeric_blocks_80]
  by (simp add: length_short_numeric_blocks)

lemma short_numeric_block_at:
  "k < 12 \<Longrightarrow> field (80 * k) 80 (concat short_numeric_blocks) = short_numeric_blocks ! k"
  using field_concat_blocks [OF short_numeric_blocks_80, of k]
  by (simp add: length_short_numeric_blocks)

lemma short_numeric_observation:
  "Recognize_Data_Header (observation_header_at (Suc 0) short_numeric_file) = Observation"
  using short_numeric_block_at [of 10]
  by (simp add: observation_header_at_def padding_140 short_numeric_blocks_def)

lemma short_numeric_variable:
  "make_Variable_Record b namestr1_short_block (take 60 namestr2_zero_block)
    = \<lparr>var_name = ''Y'', var_label = [], var_type = Numeric, var_length = 4, varNum = 1,
       var_position = 0\<rparr>"
  by (simp add: make_Variable_Record_def big_endian_input namestr1_short_block_def
      namestr2_zero_block_def nname_def nlabel_def ntype_def nlng_def nvar0_def npos_def
      field_def Char_To_String_def isspace_def NVar_Type_of_def int32_to_size_t_def Let_def)

lemma short_numeric_descriptors:
  "descriptors b (concat short_numeric_blocks) 640 (Suc 0)
    = [\<lparr>var_name = ''Y'', var_label = [], var_type = Numeric, var_length = 4, varNum = 1,
        var_position = 0\<rparr>]"
proof -
  have 1: "field 640 80 (concat short_numeric_blocks) = namestr1_short_block"
    using short_numeric_block_at [of 8] by (simp add: short_numeric_blocks_def)
  have 2: "field 720 80 (concat short_numeric_blocks) = namestr2_zero_block"
    using short_numeric_block_at [of 9] by (simp add: short_numeric_blocks_def)
  show ?thesis
    by (simp add: descriptors_def 1 field_60_of_80 [of 720] 2 short_numeric_variable)
qed

lemma short_numeric_Read_Headers:
  "Read_Headers b short_numeric_file
    = (Inr Ok, consumed 80 (before_observation b (Suc 0) short_numeric_file))"
proof -
  have "Read_Headers b short_numeric_file =
    (Inr (if Recognize_Data_Header (observation_header_at (Suc 0) short_numeric_file) = Observation
          then Ok else No_Observation_Header),
     consumed 80 (before_observation b (Suc 0) short_numeric_file))"
    by (rule stage_observation)
      (simp_all add: short_numeric_file_length padding_140
        short_numeric_headers [folded short_numeric_file_def])
  then show ?thesis by (simp add: short_numeric_observation)
qed

lemma short_numeric_row:
  "row_buffer (snd (Read_Headers b short_numeric_file)) = take 4 ibm_one"
proof -
  have "field (80 * 11) 80 (concat short_numeric_blocks) = data_block"
    using short_numeric_block_at [of 11] by (simp add: short_numeric_blocks_def)
  then have "take 4 (field 880 80 (concat short_numeric_blocks)) = take 4 ibm_one"
    by (simp add: data_block_def ibm_one_def)
  then show ?thesis
    by (simp add: row_buffer_def short_numeric_Read_Headers before_observation_simps
        short_numeric_descriptors padding_140 field_def)
qed

text \<open>
  Claim C9. The claim does not hold of the code. \<open>Read_Next\<close> reads every Numeric cell as
  the eight bytes of a \<open>uint64_t\<close> at the offset of the variable, whatever its length, and
  \<open>Read_Headers\<close> stores the offsets unchecked. In a file whose only variable is
  Numeric with length 4 at offset 0, \<open>Read_Headers\<close> returns \<open>Ok\<close>, the record length is
  4 and offset plus length stays within it, the row of four bytes is in the file, and
  \<open>Get_From_Buffer<uint64_t>\<close> reads bytes 0 to 7 of the buffer of four. In the sample
  file (length 8, stored offset 100) \<open>Read_Headers\<close> returns \<open>Ok\<close> with record length 8
  and \<open>Read_Next\<close> reads at offset 100.
\<close>

theorem Read_Next_outside_row_buffer:
  "fst (Read_Headers False short_numeric_file) = Inr Ok
   \<and> mVariables (snd (Read_Headers False short_numeric_file))
       = [\<lparr>var_name = ''Y'', var_label = [], var_type = Numeric, var_length = 4, varNum = 1,
           var_position = 0\<rparr>]
   \<and> mRecord_Len (snd (Read_Headers False short_numeric_file)) = 4
   \<and> available (mFile (snd (Read_Headers False short_numeric_file))) = 80
   \<and> length (row_buffer (snd (Read_Headers False short_numeric_file))) = 4
   \<and> Get_From_Buffer_uint64 (row_buffer (snd (Read_Headers False short_numeric_file))) 0
       = Inl Buffer_Overrun
   \<and> fst (Read_Next False [] (snd (Read_Headers False short_numeric_file))) = Inl Buffer_Overrun
   \<and> fst (Read_Headers False sample_file) = Inr Ok
   \<and> mVariables (snd (Read_Headers False sample_file))
       = [\<lparr>var_name = ''X'', var_label = [], var_type = Numeric, var_length = 8, varNum = 1,
           var_position = 100\<rparr>]
   \<and> mRecord_Len (snd (Read_Headers False sample_file)) = 8
   \<and> available (mFile (snd (Read_Headers False sample_file))) = 80
   \<and> fst (Read_Next False [] (snd (Read_Headers False sample_file))) = Inl Buffer_Overrun"
proof -
  let ?fl = "snd (Read_Headers False short_numeric_file)"
  let ?gl = "snd (Read_Headers False sample_file)"
  have v: "mVariables ?fl = [\<lparr>var_name = ''Y'', var_label = [], var_type = Numeric,
      var_length = 4, varNum = 1, var_position = 0\<rparr>]"
    by (simp add: short_numeric_Read_Headers before_observation_simps short_numeric_descriptors)
  have l: "mRecord_Len ?fl = 4"
    by (simp add: short_numeric_Read_Headers before_observation_simps short_numeric_descriptors)
  have a: "available (mFile ?fl) = 80"
    by (simp add: short_numeric_Read_Headers before_observation_simps available_def
        short_numeric_file_length padding_140)
  have r: "length (row_buffer ?fl) = 4"
    by (simp add: short_numeric_row ibm_one_def)
  have g: "Get_From_Buffer_uint64 (row_buffer ?fl) 0 = Inl Buffer_Overrun"
    by (simp add: Get_From_Buffer_uint64_def r)
  have a': "mRecord_Len ?fl \<le> available (mFile ?fl)"
    by (simp add: a l)
  have n: "fst (Read_Next False [] ?fl) = Inl Buffer_Overrun"
    unfolding Read_Next_overrun [OF a'] v l by simp
  have w: "mVariables ?gl = [\<lparr>var_name = ''X'', var_label = [], var_type = Numeric,
      var_length = 8, varNum = 1, var_position = 100\<rparr>]"
    by (simp add: sample_Read_Headers before_observation_simps sample_descriptors)
  have m: "mRecord_Len ?gl = 8"
    by (simp add: sample_Read_Headers before_observation_simps sample_descriptors)
  have c: "available (mFile ?gl) = 80"
    by (simp add: sample_Read_Headers before_observation_simps available_def sample_file_length
        padding_140)
  have c': "mRecord_Len ?gl \<le> available (mFile ?gl)"
    by (simp add: c m)
  have o: "fst (Read_Next False [] ?gl) = Inl Buffer_Overrun"
    unfolding Read_Next_overrun [OF c'] w m by simp
  show ?thesis
    using v l a r g n w m c o by (simp add: short_numeric_Read_Headers sample_Read_Headers)
qed

lemma Fetch_Column_Idx_string_as_double:
  assumes "i < length vars" and "var_type (vars ! i) = String"
    and "var_position (vars ! i) + var_length (vars ! i) \<le> length data"
  shows "Fetch_Column_Idx b stod ts vars data i (Arg_double d0) =
    (case stod (trim_cell (field (var_position (vars ! i)) (var_length (vars ! i)) data)) of
       stod_value d \<Rightarrow> Inr (Arg_double d)
     | stod_invalid_argument \<Rightarrow> Inl invalid_argument
     | stod_out_of_range \<Rightarrow> Inl out_of_range)"
  using assms by (simp add: Fetch_Column_Idx_def Get_From_Buffer_eq Let_def)

lemma slot_string_as_double:
  assumes "mRecord_Len fl \<le> available (mFile fl)"
    and "i < length args" and "i < length (mVariables fl)"
    and "args ! i = Arg_double d0"
    and "var_type (mVariables fl ! i) = String"
    and "var_position (mVariables fl ! i) + var_length (mVariables fl ! i) \<le> mRecord_Len fl"
    and "\<forall>j < i. \<exists>a. Fetch_Column_Idx b stod ts (mVariables fl) (row_buffer fl) j (args ! j) = Inr a"
  shows "(\<forall>d. stod (trim_cell (field (var_position (mVariables fl ! i))
                  (var_length (mVariables fl ! i)) (row_buffer fl))) = stod_value d \<longrightarrow>
            fst (snd (Read_Next_args b stod ts args fl)) ! i = Arg_double d)
    \<and> (stod (trim_cell (field (var_position (mVariables fl ! i))
                  (var_length (mVariables fl ! i)) (row_buffer fl))) = stod_invalid_argument \<longrightarrow>
            fst (Read_Next_args b stod ts args fl) = Inl invalid_argument
            \<and> fst (snd (Read_Next_args b stod ts args fl)) ! i = Arg_double d0)
    \<and> (stod (trim_cell (field (var_position (mVariables fl ! i))
                  (var_length (mVariables fl ! i)) (row_buffer fl))) = stod_out_of_range \<longrightarrow>
            fst (Read_Next_args b stod ts args fl) = Inl out_of_range
            \<and> fst (snd (Read_Next_args b stod ts args fl)) ! i = Arg_double d0)"
proof -
  let ?vars = "mVariables fl" and ?data = "row_buffer fl"
  let ?r = "fetch_from b stod ts ?vars ?data 0 args"
  have len: "var_position (?vars ! i) + var_length (?vars ! i) \<le> length ?data"
    using assms(6) by (simp add: length_row_buffer [OF assms(1)])
  have idx: "Fetch_Column_Idx b stod ts ?vars ?data (0 + i) (args ! i) =
    (case stod (trim_cell (field (var_position (?vars ! i)) (var_length (?vars ! i)) ?data)) of
       stod_value d \<Rightarrow> Inr (Arg_double d)
     | stod_invalid_argument \<Rightarrow> Inl invalid_argument
     | stod_out_of_range \<Rightarrow> Inl out_of_range)"
    unfolding assms(4) using Fetch_Column_Idx_string_as_double [OF assms(3,5) len] by simp
  have prev: "\<forall>j < i. \<exists>a. Fetch_Column_Idx b stod ts ?vars ?data (0 + j) (args ! j) = Inr a"
    using assms(7) by simp
  note nth = fetch_from_nth [OF assms(2) prev, unfolded idx]
  have res: "fst (Read_Next_args b stod ts args fl) = (case fst ?r of Some e \<Rightarrow> Inl e | None \<Rightarrow> Inr True)"
    "fst (snd (Read_Next_args b stod ts args fl)) = snd ?r"
    using assms(1) by (simp_all add: Read_Next_args_eq split: prod.splits option.splits)
  show ?thesis
    unfolding res using nth assms(4) by (auto split: stod_result.splits)
qed

lemma session_fetch:
  "Fetch_Column_Idx False sample_stod sample_to_string (mVariables session) (row_buffer session) 0
     (Arg_double d) = Inr (Arg_double 0x3FF0000000000000)"
  "Fetch_Column_Idx False sample_stod sample_to_string (mVariables session) (row_buffer session) (Suc 0)
     (Arg_double d) = Inr (Arg_double 0x4045400000000000)"
  "Fetch_Column_Idx False sample_stod sample_to_string (mVariables session) (row_buffer session) 2
     (Arg_string s) = Inr (Arg_string ''abc'')"
  unfolding session_row session_simps
  by (simp_all add: Fetch_Column_Idx_def Get_From_Buffer_uint64_eq Get_From_Buffer_eq
      session_cells IbmToIEEE_ibm_one sample_stod_def)

lemma session_text:
  "trim_cell (field (var_position (mVariables session ! Suc 0))
      (var_length (mVariables session ! Suc 0)) (row_buffer session)) = ''42.5''"
  "trim_cell (field (var_position (mVariables session ! 2))
      (var_length (mVariables session ! 2)) (row_buffer session)) = ''abc''"
  unfolding session_row session_simps by (simp_all add: session_cells)

lemma session_slots:
  "mRecord_Len session \<le> available (mFile session)"
  "length (mVariables session) = 3"
  "var_type (mVariables session ! 1) = String"
  "var_type (mVariables session ! 2) = String"
  "var_position (mVariables session ! 1) + var_length (mVariables session ! 1) \<le> mRecord_Len session"
  "var_position (mVariables session ! 2) + var_length (mVariables session ! 2) \<le> mRecord_Len session"
  by (simp_all add: session_simps)

lemma session_prefix:
  assumes "args ! 0 = Arg_double d0" and "1 < k \<longrightarrow> args ! 1 = Arg_double d1"
    and "2 < k \<longrightarrow> args ! 2 = Arg_string s2" and "k \<le> 3"
  shows "\<forall>j < k. \<exists>a. Fetch_Column_Idx False sample_stod sample_to_string (mVariables session)
           (row_buffer session) j (args ! j) = Inr a"
proof (intro allI impI)
  fix j assume "j < k"
  then consider "j = 0" | "j = 1" "1 < k" | "j = 2" "2 < k"
    using assms(4) by linarith
  then show "\<exists>a. Fetch_Column_Idx False sample_stod sample_to_string (mVariables session)
           (row_buffer session) j (args ! j) = Inr a"
  proof cases
    case 1
    then show ?thesis using assms(1) session_fetch(1) by simp
  next
    case 2
    then show ?thesis using assms(2) session_fetch(2) by simp
  next
    case 3
    then show ?thesis using assms(3) session_fetch(3) by simp
  qed
qed

text \<open>
  Claim C6 as stated fails on a cell holding \<open>12abc\<close>: the text is not a number, only its
  first two characters are, and the call succeeds with 12.0 in the slot.
\<close>

theorem Read_Next_args_numeric_prefix_counterexample:
  "trim_cell (field (var_position (mVariables prefix_session ! 0))
      (var_length (mVariables prefix_session ! 0)) (row_buffer prefix_session)) = ''12abc''
   \<and> strtod_subject ''12abc'' = Some (False, Decimal ''12'' [] 0, ''abc'')
   \<and> Read_Next_args False std_stod sample_to_string [Arg_double 0] prefix_session
       = (Inr True, [Arg_double 0x4028000000000000], short_read 5 prefix_session)"
proof -
  have row: "row_buffer prefix_session = ''12abc''"
    by (simp add: row_buffer_def prefix_session_def field_def)
  have v: "mVariables prefix_session =
       [\<lparr>var_name = ''S'', var_label = [], var_type = String, var_length = 5,
         varNum = 1, var_position = 0\<rparr>]"
    "mRecord_Len prefix_session = 5" "available (mFile prefix_session) = 5"
    by (simp_all add: prefix_session_def available_def)
  have t: "trim_cell (field 0 5 ''12abc'') = ''12abc''"
    by (simp add: trim_cell_def field_def isspace_def)
  have s: "strtod_subject ''12abc'' = Some (False, Decimal ''12'' [] 0, ''abc'')"
    by (simp add: strtod_subject_def scan_number_def scan_exponent_def isspace_def isdigit_def
        tolower_def Let_def)
  have f: "Fetch_Column_Idx False std_stod sample_to_string (mVariables prefix_session)
      ''12abc'' 0 (Arg_double 0) = Inr (Arg_double 0x4028000000000000)"
    unfolding v by (simp add: Fetch_Column_Idx_def Get_From_Buffer_eq t std_stod_12abc)
  have "Read_Next_args False std_stod sample_to_string [Arg_double 0] prefix_session
       = (Inr True, [Arg_double 0x4028000000000000], short_read 5 prefix_session)"
    unfolding Read_Next_args_eq row by (simp add: v(2,3) f)
  then show ?thesis using s by (simp add: row v(1) t)
qed

text \<open>
  Claim C6, amended. In the coerced \<open>Read_Next\<close>, when the row has been read and the slots
  before slot \<open>i\<close> have been filled, a \<open>double\<close> slot matched against a String column
  receives the number \<open>std::stod\<close> reads from the longest numeric prefix of the trimmed
  text of the cell. The slot throws \<open>std::invalid_argument\<close> exactly when the text has no
  numeric prefix: after white space and one sign it starts neither with a digit, nor with
  a point and a digit, nor with \<open>inf\<close> or \<open>nan\<close>. Then, and when the number is out of
  range, the call ends with the exception and the slot keeps the value it had.
\<close>

theorem Read_Next_args_string_as_double:
  assumes "mRecord_Len fl \<le> available (mFile fl)"
    and "i < length args" and "i < length (mVariables fl)"
    and "args ! i = Arg_double d0"
    and "var_type (mVariables fl ! i) = String"
    and "var_position (mVariables fl ! i) + var_length (mVariables fl ! i) \<le> mRecord_Len fl"
    and "\<forall>j < i. \<exists>a. Fetch_Column_Idx b std_stod ts (mVariables fl) (row_buffer fl) j (args ! j) = Inr a"
  shows "(Fetch_Column_Idx b std_stod ts (mVariables fl) (row_buffer fl) i (args ! i) = Inl invalid_argument
          \<longleftrightarrow> \<not> starts_numeric (trim_cell (field (var_position (mVariables fl ! i))
                  (var_length (mVariables fl ! i)) (row_buffer fl))))
    \<and> (\<not> starts_numeric (trim_cell (field (var_position (mVariables fl ! i))
                  (var_length (mVariables fl ! i)) (row_buffer fl))) \<longrightarrow>
            fst (Read_Next_args b std_stod ts args fl) = Inl invalid_argument
            \<and> fst (snd (Read_Next_args b std_stod ts args fl)) ! i = Arg_double d0)
    \<and> (std_stod (trim_cell (field (var_position (mVariables fl ! i))
                  (var_length (mVariables fl ! i)) (row_buffer fl))) = stod_out_of_range \<longrightarrow>
            fst (Read_Next_args b std_stod ts args fl) = Inl out_of_range
            \<and> fst (snd (Read_Next_args b std_stod ts args fl)) ! i = Arg_double d0)
    \<and> (\<forall>d. std_stod (trim_cell (field (var_position (mVariables fl ! i))
                  (var_length (mVariables fl ! i)) (row_buffer fl))) = stod_value d \<longrightarrow>
            fst (snd (Read_Next_args b std_stod ts args fl)) ! i = Arg_double d)"
proof -
  let ?text = "trim_cell (field (var_position (mVariables fl ! i))
                  (var_length (mVariables fl ! i)) (row_buffer fl))"
  have len: "var_position (mVariables fl ! i) + var_length (mVariables fl ! i) \<le> length (row_buffer fl)"
    using assms(6) by (simp add: length_row_buffer [OF assms(1)])
  have idx: "Fetch_Column_Idx b std_stod ts (mVariables fl) (row_buffer fl) i (args ! i) =
    (case std_stod ?text of
       stod_value d \<Rightarrow> Inr (Arg_double d)
     | stod_invalid_argument \<Rightarrow> Inl invalid_argument
     | stod_out_of_range \<Rightarrow> Inl out_of_range)"
    unfolding assms(4) by (rule Fetch_Column_Idx_string_as_double [OF assms(3,5) len])
  have 1: "Fetch_Column_Idx b std_stod ts (mVariables fl) (row_buffer fl) i (args ! i) = Inl invalid_argument
          \<longleftrightarrow> \<not> starts_numeric ?text"
    unfolding idx std_stod_invalid [symmetric] by (simp split: stod_result.splits)
  note slot = slot_string_as_double [OF assms, of ]
  show ?thesis
    using 1 slot by (simp add: std_stod_invalid)
qed

lemma session_fetch_std:
  "Fetch_Column_Idx False std_stod sample_to_string (mVariables session) (row_buffer session) 0
     (Arg_double d) = Inr (Arg_double 0x3FF0000000000000)"
  "Fetch_Column_Idx False std_stod sample_to_string (mVariables session) (row_buffer session) (Suc 0)
     (Arg_double d) = Inr (Arg_double 0x4045400000000000)"
  unfolding session_row session_simps
  by (simp_all add: Fetch_Column_Idx_def Get_From_Buffer_uint64_eq Get_From_Buffer_eq
      session_cells IbmToIEEE_ibm_one std_stod_42_5)

lemma range_session_slots:
  "mRecord_Len range_session \<le> available (mFile range_session)"
  "0 < length (mVariables range_session)"
  "var_type (mVariables range_session ! 0) = String"
  "var_position (mVariables range_session ! 0) + var_length (mVariables range_session ! 0)
     \<le> mRecord_Len range_session"
  "trim_cell (field (var_position (mVariables range_session ! 0))
      (var_length (mVariables range_session ! 0)) (row_buffer range_session)) = ''1e999''"
  by (simp_all add: range_session_def available_def row_buffer_def field_def trim_cell_def
      isspace_def)

theorem Read_Next_args_string_as_double_witness:
  "fst (snd (Read_Next_args False std_stod sample_to_string
        [Arg_double 0, Arg_double 0] session)) ! 1 = Arg_double 0x4045400000000000
   \<and> \<not> starts_numeric (trim_cell (field (var_position (mVariables session ! 2))
                  (var_length (mVariables session ! 2)) (row_buffer session)))
   \<and> fst (Read_Next_args False std_stod sample_to_string
        [Arg_double 0, Arg_double 0, Arg_double 7] session) = Inl invalid_argument
   \<and> fst (snd (Read_Next_args False std_stod sample_to_string
        [Arg_double 0, Arg_double 0, Arg_double 7] session)) ! 2 = Arg_double 7
   \<and> std_stod (trim_cell (field (var_position (mVariables range_session ! 0))
                  (var_length (mVariables range_session ! 0)) (row_buffer range_session)))
       = stod_out_of_range
   \<and> fst (Read_Next_args False std_stod sample_to_string [Arg_double 7] range_session)
       = Inl out_of_range
   \<and> fst (snd (Read_Next_args False std_stod sample_to_string [Arg_double 7] range_session)) ! 0
       = Arg_double 7"
proof -
  let ?a = "[Arg_double 0, Arg_double 0]" and ?b = "[Arg_double 0, Arg_double 0, Arg_double 7]"
  let ?c = "[Arg_double 7]"
  have a: "1 < length ?a" "1 < length (mVariables session)" "?a ! 1 = Arg_double 0"
    by (simp_all add: session_slots)
  have pa: "\<forall>j < 1. \<exists>a. Fetch_Column_Idx False std_stod sample_to_string (mVariables session)
           (row_buffer session) j (?a ! j) = Inr a"
    by (simp add: session_fetch_std)
  have b: "2 < length ?b" "2 < length (mVariables session)" "?b ! 2 = Arg_double 7"
    by (simp_all add: session_slots)
  have pb: "\<forall>j < 2. \<exists>a. Fetch_Column_Idx False std_stod sample_to_string (mVariables session)
           (row_buffer session) j (?b ! j) = Inr a"
    by (simp add: All_less_Suc numeral_2_eq_2 session_fetch_std)
  have c: "0 < length ?c" "?c ! 0 = Arg_double 7"
    by simp_all
  have pc: "\<forall>j < 0. \<exists>a. Fetch_Column_Idx False std_stod sample_to_string
           (mVariables range_session) (row_buffer range_session) j (?c ! j) = Inr a"
    by simp
  have ta: "std_stod (trim_cell (field (var_position (mVariables session ! 1))
      (var_length (mVariables session ! 1)) (row_buffer session))) = stod_value 0x4045400000000000"
    by (simp add: session_text std_stod_42_5)
  have tb: "\<not> starts_numeric (trim_cell (field (var_position (mVariables session ! 2))
      (var_length (mVariables session ! 2)) (row_buffer session)))"
    using std_stod_abc by (simp add: session_text std_stod_invalid)
  have tc: "std_stod (trim_cell (field (var_position (mVariables range_session ! 0))
      (var_length (mVariables range_session ! 0)) (row_buffer range_session))) = stod_out_of_range"
    unfolding range_session_slots(5) by (rule std_stod_1e999)
  show ?thesis
    using Read_Next_args_string_as_double [OF session_slots(1) a session_slots(3,5) pa]
      Read_Next_args_string_as_double [OF session_slots(1) b session_slots(4,6) pb]
      Read_Next_args_string_as_double [OF range_session_slots(1) c(1) range_session_slots(2)
        c(2) range_session_slots(3,4) pc]
      ta tb tc
    by blast
qed

text \<open>
  Claim C10. \<open>Fetch_Column_Idx\<close> indexes the table of variables with the position of the
  slot and no check: an index not below the number of variables is outside the vector.
  With no more slots than variables the coerced \<open>Read_Next\<close> never makes such an access;
  with more slots, once the row is read and the slots matched with variables are filled,
  it does.
\<close>

theorem Read_Next_args_index:
  "(\<forall>argIdx arg. length vars \<le> argIdx \<longrightarrow>
      Fetch_Column_Idx b stod ts vars data argIdx arg = Inl Vector_Index_Overrun)
   \<and> (length args \<le> length (mVariables fl) \<longrightarrow>
        fst (Read_Next_args b stod ts args fl) \<noteq> Inl Vector_Index_Overrun)
   \<and> (length (mVariables fl) < length args \<longrightarrow>
        mRecord_Len fl \<le> available (mFile fl) \<longrightarrow>
        (\<forall>j < length (mVariables fl).
           \<exists>a. Fetch_Column_Idx b stod ts (mVariables fl) (row_buffer fl) j (args ! j) = Inr a) \<longrightarrow>
        fst (Read_Next_args b stod ts args fl) = Inl Vector_Index_Overrun)"
proof (intro conjI allI impI)
  fix argIdx arg assume "length vars \<le> argIdx"
  then show "Fetch_Column_Idx b stod ts vars data argIdx arg = Inl Vector_Index_Overrun"
    by (simp add: Fetch_Column_Idx_def)
next
  assume le: "length args \<le> length (mVariables fl)"
  show "fst (Read_Next_args b stod ts args fl) \<noteq> Inl Vector_Index_Overrun"
  proof
    assume "fst (Read_Next_args b stod ts args fl) = Inl Vector_Index_Overrun"
    then have "fst (fetch_from b stod ts (mVariables fl) (row_buffer fl) 0 args)
        = Some Vector_Index_Overrun"
      by (auto simp add: Read_Next_args_eq split: if_splits prod.splits option.splits)
    from fetch_from_overrun [OF this] show False using le by simp
  qed
next
  assume lt: "length (mVariables fl) < length args"
    and av: "mRecord_Len fl \<le> available (mFile fl)"
    and prev: "\<forall>j < length (mVariables fl).
           \<exists>a. Fetch_Column_Idx b stod ts (mVariables fl) (row_buffer fl) j (args ! j) = Inr a"
  let ?n = "length (mVariables fl)"
  have prev': "\<forall>j < ?n.
      \<exists>a. Fetch_Column_Idx b stod ts (mVariables fl) (row_buffer fl) (0 + j) (args ! j) = Inr a"
    using prev by simp
  have "Fetch_Column_Idx b stod ts (mVariables fl) (row_buffer fl) (0 + ?n) (args ! ?n)
      = Inl Vector_Index_Overrun"
    by (simp add: Fetch_Column_Idx_def)
  with fetch_from_nth [OF lt prev']
  have "fst (fetch_from b stod ts (mVariables fl) (row_buffer fl) 0 args) = Some Vector_Index_Overrun"
    by simp
  then show "fst (Read_Next_args b stod ts args fl) = Inl Vector_Index_Overrun"
    using av by (auto simp add: Read_Next_args_eq split: prod.splits)
qed

theorem Read_Next_args_index_witness:
  "fst (Read_Next_args False sample_stod sample_to_string
        [Arg_double 0, Arg_double 0, Arg_string []] session) \<noteq> Inl Vector_Index_Overrun
   \<and> fst (Read_Next_args False sample_stod sample_to_string
        [Arg_double 0, Arg_double 0, Arg_string [], Arg_double 0] session) = Inl Vector_Index_Overrun"
proof -
  let ?a = "[Arg_double 0, Arg_double 0, Arg_string []]"
  let ?b = "[Arg_double 0, Arg_double 0, Arg_string [], Arg_double 0]"
  have a: "length ?a \<le> length (mVariables session)"
    by (simp add: session_slots)
  have b: "length (mVariables session) < length ?b"
    by (simp add: session_slots)
  have pb: "\<forall>j < length (mVariables session).
      \<exists>a. Fetch_Column_Idx False sample_stod sample_to_string (mVariables session)
           (row_buffer session) j (?b ! j) = Inr a"
    unfolding session_slots(2) by (rule session_prefix [of _ 0 _ 0 "[]"]) simp_all
  note T = Read_Next_args_index [of "[]" False sample_stod sample_to_string "[]" _ session]
  show ?thesis
    using T [of ?a] T [of ?b] a b pb session_slots(1) by blast
qed

end
